theory Spec2Isabelle
  imports Main
begin

chapter \<open>The episode ingestion pipeline of lastanime-backend\<close>

text \<open>
  A shallow embedding of the discovery-and-ingestion code: the proxy pool
  (\<^verbatim>\<open>proxy-manager.js\<close>), the retrying fetch (\<^verbatim>\<open>scraper.js\<close>, \<^verbatim>\<open>lib/fetch-utils.js\<close>), the
  homepage parser (\<^verbatim>\<open>lib/homepage-parser.js\<close>), the detail scraper, the persistence helpers
  (\<^verbatim>\<open>supabase-client.js\<close>, \<^verbatim>\<open>lib/supabase-helpers.js\<close>) and the two card loops
  (\<^verbatim>\<open>monitor.js\<close>, \<^verbatim>\<open>monitor-service.js\<close>).

  JavaScript strings are modelled as \<^typ>\<open>string\<close>; the characters the regular expressions of
  the source distinguish (digits, \<^verbatim>\<open>x\<close>, \<^verbatim>\<open>-\<close>, \<^verbatim>\<open>/\<close>, parentheses, white space) are all ASCII.
  A value that is \<^verbatim>\<open>null\<close> or \<^verbatim>\<open>undefined\<close> is \<^term>\<open>None\<close>. JavaScript numbers that count or
  index are integers; \<^verbatim>\<open>parseInt\<close> of a digit string is its decimal value.
\<close>

section \<open>Definitions\<close>

subsection \<open>Characters and the episode-code pattern\<close>

text \<open>\<^verbatim>\<open>\d\<close> without the \<^verbatim>\<open>u\<close> flag: the ten ASCII digits.\<close>

definition is_digit :: "char \<Rightarrow> bool" where
  "is_digit c = (c \<in> set ''0123456789'')"

text \<open>\<^verbatim>\<open>x\<close> under the \<^verbatim>\<open>i\<close> flag.\<close>

definition is_x :: "char \<Rightarrow> bool" where
  "is_x c = (c = CHR ''x'' \<or> c = CHR ''X'')"

definition digit_val :: "char \<Rightarrow> nat" where
  "digit_val c = of_char c - 48"

text \<open>\<^verbatim>\<open>parseInt(ds, 10)\<close> on a string of digits: its decimal value (which a JavaScript number
  holds exactly up to \<open>2^53\<close>).\<close>

definition parseInt :: "string \<Rightarrow> nat" where
  "parseInt ds = foldl (\<lambda>a c. 10 * a + digit_val c) 0 ds"

text \<open>
  The pattern \<^verbatim>\<open>(\d+)x(\d+)\<close> anchored at the start of a string. Both groups are greedy; a
  shorter first group can never be followed by \<^verbatim>\<open>x\<close>, so backtracking finds nothing more.
  The result is the pair of captured groups.
\<close>

definition code_match_at :: "string \<Rightarrow> (string \<times> string) option" where
  "code_match_at s =
     (let d1 = takeWhile is_digit s; r = dropWhile is_digit s in
      if d1 = [] then None
      else case r of
        [] \<Rightarrow> None
      | c # r' \<Rightarrow>
          if is_x c then
            (let d2 = takeWhile is_digit r' in
             if d2 = [] then None else Some (d1, d2))
          else None)"

text \<open>\<^verbatim>\<open>s.match(/(\d+)x(\d+)/i)\<close>: the match at the leftmost position that has one.\<close>

fun code_search :: "string \<Rightarrow> (string \<times> string) option" where
  "code_search [] = None"
| "code_search (c # cs) =
     (case code_match_at (c # cs) of
        Some m \<Rightarrow> Some m
      | None \<Rightarrow> code_search cs)"

record EpisodeCode =
  season :: nat
  episode :: nat

text \<open>\<^verbatim>\<open>parseEpisodeCode\<close> of \<^verbatim>\<open>lib/homepage-parser.js\<close> (the copy in \<^verbatim>\<open>scraper.js\<close> is the same).\<close>

definition parseEpisodeCode :: "string \<Rightarrow> EpisodeCode option" where
  "parseEpisodeCode url =
     (case code_search url of
        None \<Rightarrow> None
      | Some (a, b) \<Rightarrow> Some \<lparr>season = parseInt a, episode = parseInt b\<rparr>)"

text \<open>
  The words of the specification: a string is \<^emph>\<open>code shaped\<close> when it is digits, an \<^verbatim>\<open>x\<close>
  of either case, digits; a string \<^emph>\<open>has a code at\<close> offset \<open>n\<close> when a code-shaped substring
  starts there.
\<close>

definition code_shaped :: "string \<Rightarrow> string \<Rightarrow> char \<Rightarrow> string \<Rightarrow> bool" where
  "code_shaped w d1 c d2 =
     (w = d1 @ c # d2 \<and> d1 \<noteq> [] \<and> list_all is_digit d1 \<and> is_x c \<and>
      d2 \<noteq> [] \<and> list_all is_digit d2)"

definition has_code_at :: "string \<Rightarrow> nat \<Rightarrow> bool" where
  "has_code_at s n =
     (\<exists>w d1 c d2 post. n \<le> length s \<and> drop n s = w @ post \<and> code_shaped w d1 c d2)"


subsection \<open>Strings\<close>

text \<open>
  Errors are values. \<open>TypeError\<close> is what \<^verbatim>\<open>new URL\<close> throws on an invalid URL and what a
  method call on \<^verbatim>\<open>undefined\<close> throws. \<open>FetchExhausted url n m\<close> is the error the fetch
  functions throw after their last attempt: its message names the URL, the number of attempts
  (in \<^verbatim>\<open>scraper.js\<close> only) and the text \<open>m\<close> taken from the last underlying error.
  \<open>PersistenceFailure\<close> is an error object returned by the store and thrown by a helper.
\<close>

datatype error =
    TypeError
  | FetchExhausted string "int option" string
  | PersistenceFailure string

text \<open>\<^verbatim>\<open>s.split(sep)\<close> for a one-character separator: never empty, \<^verbatim>\<open>''.split('/')\<close> is \<^verbatim>\<open>['']\<close>.\<close>

fun split_on :: "char \<Rightarrow> string \<Rightarrow> string list" where
  "split_on sep [] = [[]]"
| "split_on sep (c # cs) =
     (if c = sep then [] # split_on sep cs
      else case split_on sep cs of
             w # ws \<Rightarrow> (c # w) # ws
           | [] \<Rightarrow> [[c]])"

text \<open>\<^verbatim>\<open>ws.join(sep)\<close>.\<close>

fun join_with :: "string \<Rightarrow> string list \<Rightarrow> string" where
  "join_with sep [] = []"
| "join_with sep [w] = w"
| "join_with sep (w # ws) = w @ sep @ join_with sep ws"

text \<open>\<^verbatim>\<open>\s\<close>, and the white space \<^verbatim>\<open>trim\<close> removes, within ASCII: tab, line feed, vertical tab,
  form feed, carriage return and space.\<close>

definition is_space :: "char \<Rightarrow> bool" where
  "is_space c = (c \<in> set [CHR 0x09, CHR 0x0A, CHR 0x0B, CHR 0x0C, CHR 0x0D, CHR '' ''])"

definition trim :: "string \<Rightarrow> string" where
  "trim s = rev (dropWhile is_space (rev (dropWhile is_space s)))"

text \<open>\<^verbatim>\<open>toUpperCase\<close> and \<^verbatim>\<open>toLowerCase\<close> on one character, within ASCII.\<close>

definition to_upper :: "char \<Rightarrow> char" where
  "to_upper c =
     (case map_of (zip ''abcdefghijklmnopqrstuvwxyz'' ''ABCDEFGHIJKLMNOPQRSTUVWXYZ'') c of
        Some u \<Rightarrow> u
      | None \<Rightarrow> c)"

definition to_lower :: "char \<Rightarrow> char" where
  "to_lower c =
     (case map_of (zip ''ABCDEFGHIJKLMNOPQRSTUVWXYZ'' ''abcdefghijklmnopqrstuvwxyz'') c of
        Some l \<Rightarrow> l
      | None \<Rightarrow> c)"

text \<open>A string value is truthy when it is neither \<^verbatim>\<open>null\<close>/\<^verbatim>\<open>undefined\<close> nor empty; \<^verbatim>\<open>a || b\<close>.\<close>

definition truthy :: "string option \<Rightarrow> bool" where
  "truthy v = (case v of None \<Rightarrow> False | Some s \<Rightarrow> s \<noteq> [])"

definition js_or :: "string option \<Rightarrow> string option \<Rightarrow> string option" where
  "js_or a b = (if truthy a then a else b)"

subsection \<open>Series slug and title from the episode URL\<close>

text \<open>
  \<^verbatim>\<open>s.replace(/-\d+x\d+$/i, '')\<close>: the pattern is anchored at the end of the string, so it is
  read from the end: digits, an \<^verbatim>\<open>x\<close>, digits, a hyphen. When the string does not end that
  way nothing is replaced.
\<close>

definition strip_code_suffix :: "string \<Rightarrow> string" where
  "strip_code_suffix s =
     (let r = rev s; d2 = takeWhile is_digit r in
      if d2 = [] then s
      else case dropWhile is_digit r of
        [] \<Rightarrow> s
      | c # r1 \<Rightarrow>
          if is_x c then
            (if takeWhile is_digit r1 = [] then s
             else case dropWhile is_digit r1 of
               [] \<Rightarrow> s
             | m # r2 \<Rightarrow> if m = CHR ''-'' then rev r2 else s)
          else s)"

text \<open>\<^verbatim>\<open>pathname.split('/').filter(Boolean)\<close>.\<close>

definition path_segments :: "string \<Rightarrow> string list" where
  "path_segments p = filter (\<lambda>w. w \<noteq> []) (split_on CHR ''/'' p)"

text \<open>
  The body of the \<^verbatim>\<open>try\<close> block of \<^verbatim>\<open>deriveSeriesSlugFromEpisodeUrl\<close>. The URL parser of the
  platform is the parameter \<open>U\<close>: \<open>U url\<close> is \<^verbatim>\<open>new URL(url).pathname\<close>, and \<^term>\<open>None\<close> when
  the constructor throws. With no path segment \<^verbatim>\<open>parts[parts.length - 1]\<close> is
  \<^verbatim>\<open>undefined\<close> and the call of \<^verbatim>\<open>match\<close> on it throws.
\<close>

definition deriveSeriesSlug_try :: "(string \<Rightarrow> string option) \<Rightarrow> string \<Rightarrow> error + string" where
  "deriveSeriesSlug_try U url =
     (case U url of
        None \<Rightarrow> Inl TypeError
      | Some pathname \<Rightarrow>
          (let parts = path_segments pathname in
           if parts = [] then Inl TypeError
           else let episodePart = last parts in
             if code_search episodePart \<noteq> None then Inr (strip_code_suffix episodePart)
             else Inr episodePart))"

text \<open>\<^verbatim>\<open>deriveSeriesSlugFromEpisodeUrl\<close>: the \<^verbatim>\<open>catch\<close> turns every error into \<^verbatim>\<open>'unknown'\<close>.\<close>

definition deriveSeriesSlugFromEpisodeUrl :: "(string \<Rightarrow> string option) \<Rightarrow> string \<Rightarrow> string" where
  "deriveSeriesSlugFromEpisodeUrl U url =
     (case deriveSeriesSlug_try U url of Inl e \<Rightarrow> ''unknown'' | Inr slug \<Rightarrow> slug)"

text \<open>\<^verbatim>\<open>w.charAt(0).toUpperCase() + w.slice(1)\<close>, and the title made of a slug.\<close>

definition capitalize :: "string \<Rightarrow> string" where
  "capitalize w = (case w of [] \<Rightarrow> [] | c # cs \<Rightarrow> to_upper c # cs)"

definition titleCase :: "string \<Rightarrow> string" where
  "titleCase slug = join_with '' '' (map capitalize (split_on CHR ''-'' slug))"

text \<open>
  The pattern \<^verbatim>\<open>\s*\([^)]*\)\s*\<close> anchored at the start of a string; the result is what
  follows the match. Every quantifier is greedy and none can usefully give characters back.
\<close>

definition paren_match_at :: "string \<Rightarrow> string option" where
  "paren_match_at s =
     (case dropWhile is_space s of
        [] \<Rightarrow> None
      | c # r1 \<Rightarrow>
          if c = CHR ''('' then
            (case dropWhile (\<lambda>c. c \<noteq> CHR '')'') r1 of
               [] \<Rightarrow> None
             | _ # r2 \<Rightarrow> Some (dropWhile is_space r2))
          else None)"

lemma paren_match_at_shorter: "paren_match_at s = Some r \<Longrightarrow> length r < length s"
proof -
  assume "paren_match_at s = Some r"
  then obtain c r1 x r2 where 1: "dropWhile is_space s = c # r1"
    and 2: "dropWhile (\<lambda>c. c \<noteq> CHR '')'') r1 = x # r2" and 3: "r = dropWhile is_space r2"
    by (auto simp: paren_match_at_def split: list.splits if_splits)
  have "length r \<le> length r2" using 3 by (simp add: length_dropWhile_le)
  also have "\<dots> < length (x # r2)" by simp
  also have "\<dots> \<le> length r1"
    using 2 length_dropWhile_le [of "\<lambda>c. c \<noteq> CHR '')''" r1] by simp
  also have "\<dots> < length (c # r1)" by simp
  also have "\<dots> \<le> length s" using 1 length_dropWhile_le [of is_space s] by simp
  finally show ?thesis .
qed

text \<open>\<^verbatim>\<open>s.replace(/\s*\([^)]*\)\s*/g, '')\<close>: every match is removed, scanning from the left and
  resuming after each match.\<close>

function strip_parens :: "string \<Rightarrow> string" where
  "strip_parens [] = []"
| "strip_parens (c # cs) =
     (case paren_match_at (c # cs) of
        Some r \<Rightarrow> strip_parens r
      | None \<Rightarrow> c # strip_parens cs)"
  by pat_completeness auto
termination
  by (relation "measure length") (auto dest: paren_match_at_shorter)

text \<open>\<^verbatim>\<open>sanitizeTitle\<close> of \<^verbatim>\<open>lib/homepage-parser.js\<close>.\<close>

definition sanitizeTitle :: "string \<Rightarrow> string" where
  "sanitizeTitle title = trim (strip_parens title)"

subsection \<open>The detail page and its scraper (\<^verbatim>\<open>monitor.js\<close>)\<close>

text \<open>
  A detail page as the selectors of the scrapers see it. A breadcrumb is the last link with
  \<^verbatim>\<open>/series/\<close> in its \<^verbatim>\<open>href\<close> inside the breadcrumb container, as its text and its \<^verbatim>\<open>href\<close>.
  An iframe carries its two source attributes and the numbers \<open>k\<close> of the \<^verbatim>\<open>div#options-k\<close>
  elements it lies in. The list of iframes is in document order. The image fields are the
  \<^verbatim>\<open>data-src\<close> of \<^verbatim>\<open>.video-options img\<close> and of \<^verbatim>\<open>.post-thumbnail img\<close> and the content of the
  \<^verbatim>\<open>og:image\<close> meta tag; the remaining fields are what \<^verbatim>\<open>extractCommonFields\<close> and the
  \<^verbatim>\<open>og:title\<close> fallback of \<^verbatim>\<open>scraper.js\<close> read: texts of first matches (empty when there is
  none) and attribute values.
\<close>

record iframe =
  if_src :: "string option"
  if_data_src :: "string option"
  if_options :: "nat list"

record detail_page =
  nav_breadcrumb :: "(string \<times> string) option"
  div_breadcrumb :: "(string \<times> string) option"
  video_options_img :: "string option"
  post_thumbnail_img :: "string option"
  og_image :: "string option"
  iframes :: "iframe list"
  og_title :: "string option"
  h1_entry_title :: string
  title_tag :: string
  og_description :: "string option"
  entry_content_p :: string
  year_text :: string
  genre_links :: "string list"
  div_post_thumbnail_src :: "string option"
  div_post_thumbnail_data_src :: "string option"

text \<open>A page on which no selector finds anything.\<close>

definition blank_page :: detail_page where
  "blank_page =
     \<lparr>nav_breadcrumb = None, div_breadcrumb = None, video_options_img = None,
      post_thumbnail_img = None, og_image = None, iframes = [], og_title = None,
      h1_entry_title = [], title_tag = [], og_description = None, entry_content_p = [],
      year_text = [], genre_links = [], div_post_thumbnail_src = None,
      div_post_thumbnail_data_src = None\<rparr>"

text \<open>One breadcrumb attempt: it sets the title when the link exists, and the slug when the
  link has an \<^verbatim>\<open>href\<close>; \<^verbatim>\<open>pop()\<close> of an empty array is \<^verbatim>\<open>undefined\<close>.\<close>

definition last_segment :: "string \<Rightarrow> string option" where
  "last_segment u = (let ps = path_segments u in if ps = [] then None else Some (last ps))"

definition apply_breadcrumb ::
  "(string \<times> string) option \<Rightarrow> string option \<times> string option \<Rightarrow> string option \<times> string option" where
  "apply_breadcrumb bc ts =
     (case bc of
        None \<Rightarrow> ts
      | Some (text, href) \<Rightarrow>
          (Some (trim text), if href \<noteq> [] then last_segment href else snd ts))"

text \<open>Title and slug after the two breadcrumb attempts of \<^verbatim>\<open>scrapeEpisodeDetails\<close>.\<close>

definition breadcrumb_identity :: "detail_page \<Rightarrow> string option \<times> string option" where
  "breadcrumb_identity page =
     (let ts = apply_breadcrumb (nav_breadcrumb page) (None, None) in
      if \<not> truthy (fst ts) \<or> \<not> truthy (snd ts)
      then apply_breadcrumb (div_breadcrumb page) ts else ts)"

definition breadcrumbs_failed :: "detail_page \<Rightarrow> bool" where
  "breadcrumbs_failed page =
     (\<not> truthy (fst (breadcrumb_identity page)) \<or> \<not> truthy (snd (breadcrumb_identity page)))"

text \<open>The series title (sanitized) and slug of \<^verbatim>\<open>scrapeEpisodeDetails\<close>.\<close>

definition series_identity ::
  "(string \<Rightarrow> string option) \<Rightarrow> detail_page \<Rightarrow> string \<Rightarrow> string \<times> string" where
  "series_identity U page episodeUrl =
     (case breadcrumb_identity page of
        (Some t, Some sl) \<Rightarrow>
          if t \<noteq> [] \<and> sl \<noteq> [] then (sanitizeTitle t, sl)
          else (let slug = deriveSeriesSlugFromEpisodeUrl U episodeUrl
                in (sanitizeTitle (titleCase slug), slug))
      | _ \<Rightarrow>
          (let slug = deriveSeriesSlugFromEpisodeUrl U episodeUrl
           in (sanitizeTitle (titleCase slug), slug)))"

subsection \<open>Proxy pool\<close>

text \<open>
  \<^verbatim>\<open>class ProxyManager\<close>: the configured list, the round-robin cursor and the set of
  quarantined proxies.
\<close>

record ProxyManager =
  proxies :: "string list"
  currentIndex :: nat
  failedProxies :: "string set"

text \<open>The constructor, for a configured list \<^verbatim>\<open>CONFIG.proxy.list\<close>.\<close>

definition newProxyManager :: "string list \<Rightarrow> ProxyManager" where
  "newProxyManager ps = \<lparr>proxies = ps, currentIndex = 0, failedProxies = {}\<rparr>"

text \<open>
  The \<^verbatim>\<open>for\<close> loop of \<^verbatim>\<open>getNextProxy\<close>, with the number of iterations left. An index out of
  range reads \<^verbatim>\<open>undefined\<close>, which is never in the quarantine set and is returned as it is.
  The outer option is \<^term>\<open>None\<close> when the loop ends without returning.
\<close>

fun getNextProxy_loop :: "nat \<Rightarrow> ProxyManager \<Rightarrow> string option option \<times> ProxyManager" where
  "getNextProxy_loop 0 s = (None, s)"
| "getNextProxy_loop (Suc n) s =
     (let proxy = (if currentIndex s < length (proxies s)
                   then Some (proxies s ! currentIndex s) else None);
          s' = s\<lparr>currentIndex := (currentIndex s + 1) mod length (proxies s)\<rparr>
      in case proxy of
           None \<Rightarrow> (Some None, s')
         | Some p \<Rightarrow>
             if p \<notin> failedProxies s' then (Some (Some p), s')
             else getNextProxy_loop n s')"

definition getNextProxy :: "ProxyManager \<Rightarrow> string option \<times> ProxyManager" where
  "getNextProxy s =
     (if length (proxies s) = 0 then (None, s)
      else case getNextProxy_loop (length (proxies s)) s of
        (Some r, s') \<Rightarrow> (r, s')
      | (None, s') \<Rightarrow> (Some (proxies s' ! 0), s'\<lparr>failedProxies := {}\<rparr>))"

text \<open>\<^verbatim>\<open>markProxyAsFailed\<close>: an empty (falsy) string is ignored.\<close>

definition markProxyAsFailed :: "string \<Rightarrow> ProxyManager \<Rightarrow> ProxyManager" where
  "markProxyAsFailed p s =
     (if p \<noteq> [] then s\<lparr>failedProxies := insert p (failedProxies s)\<rparr> else s)"

text \<open>The cursor stays inside the list: true of the constructor and kept by every method.\<close>

definition cursor_ok :: "ProxyManager \<Rightarrow> bool" where
  "cursor_ok s = (proxies s = [] \<or> currentIndex s < length (proxies s))"

subsection \<open>Fetch client\<close>

text \<open>
  The network is a parameter: \<open>net i p\<close> is what the \<open>i\<close>-th call of \<^verbatim>\<open>axios.get\<close> of one
  \<^verbatim>\<open>fetchHtmlWithRetry\<close> does when it goes through proxy \<open>p\<close> (\<^term>\<open>None\<close>: directly): it
  throws an error with a message, \<^term>\<open>Inl\<close>, or answers with a body, \<^term>\<open>Inr\<close>.
\<close>

type_synonym network = "nat \<Rightarrow> string option \<Rightarrow> string + string"

text \<open>
  \<^verbatim>\<open>getAxiosConfig\<close>: the proxy the request goes through. \<open>agent_ok p\<close> says that
  \<^verbatim>\<open>createProxyAgent\<close> builds an agent for \<open>p\<close>; when it does not the request goes directly.
\<close>

definition getAxiosConfig :: "(string \<Rightarrow> bool) \<Rightarrow> ProxyManager \<Rightarrow> string option \<times> ProxyManager" where
  "getAxiosConfig agent_ok pm =
     (case getNextProxy pm of
        (None, pm') \<Rightarrow> (None, pm')
      | (Some proxyString, pm') \<Rightarrow>
          if proxyString \<noteq> [] \<and> agent_ok proxyString then (Some proxyString, pm')
          else (None, pm'))"

definition handleProxyError :: "string option \<Rightarrow> ProxyManager \<Rightarrow> ProxyManager" where
  "handleProxyError used pm =
     (case used of None \<Rightarrow> pm | Some p \<Rightarrow> if p \<noteq> [] then markProxyAsFailed p pm else pm)"

text \<open>\<^verbatim>\<open>lastErr?.message || 'unknown error'\<close>.\<close>

definition err_text :: "string option \<Rightarrow> string" where
  "err_text lastErr =
     (case lastErr of None \<Rightarrow> ''unknown error''
      | Some m \<Rightarrow> if m = [] then ''unknown error'' else m)"

text \<open>
  The \<^verbatim>\<open>for\<close> loop of \<^verbatim>\<open>fetchHtmlWithRetry\<close> in \<^verbatim>\<open>scraper.js\<close>, with the number of iterations
  left and the counter \<open>i\<close>. The third component of the result is the log of the calls of
  \<^verbatim>\<open>axios.get\<close> that were made, in order.
\<close>

fun fetch_attempts ::
  "network \<Rightarrow> (string \<Rightarrow> bool) \<Rightarrow> nat \<Rightarrow> nat \<Rightarrow> ProxyManager \<Rightarrow> string option \<Rightarrow>
     (string option + string) \<times> ProxyManager \<times> (string + string) list" where
  "fetch_attempts net agent_ok 0 i pm lastErr = (Inl lastErr, pm, [])"
| "fetch_attempts net agent_ok (Suc k) i pm lastErr =
     (let (used, pm1) = getAxiosConfig agent_ok pm; r = net i used in
      case r of
        Inr body \<Rightarrow> (Inr body, pm1, [r])
      | Inl err \<Rightarrow>
          (case fetch_attempts net agent_ok k (i + 1) (handleProxyError used pm1) (Some err) of
             (res, pm', log) \<Rightarrow> (res, pm', r # log)))"

text \<open>\<^verbatim>\<open>fetchHtmlWithRetry\<close> of \<^verbatim>\<open>scraper.js\<close>; the proxy list is the one of the proxy manager.\<close>

definition fetchHtmlWithRetry ::
  "network \<Rightarrow> (string \<Rightarrow> bool) \<Rightarrow> string \<Rightarrow> int \<Rightarrow> ProxyManager \<Rightarrow>
     (error + string) \<times> ProxyManager \<times> (string + string) list" where
  "fetchHtmlWithRetry net agent_ok url retries pm =
     (let n = int (length (proxies pm));
          totalAttempts = retries * max 1 (if n = 0 then 1 else n)
      in case fetch_attempts net agent_ok (nat totalAttempts) 1 pm None of
           (Inr body, pm', log) \<Rightarrow> (Inr body, pm', log)
         | (Inl lastErr, pm', log) \<Rightarrow>
             (Inl (FetchExhausted url (Some totalAttempts) (err_text lastErr)), pm', log))"

text \<open>\<^verbatim>\<open>fetchHtmlWithRetry\<close> of \<^verbatim>\<open>lib/fetch-utils.js\<close>: no proxies, \<^verbatim>\<open>retries\<close> attempts.\<close>

fun fetch_attempts_direct ::
  "network \<Rightarrow> nat \<Rightarrow> nat \<Rightarrow> string option \<Rightarrow> (string option + string) \<times> (string + string) list" where
  "fetch_attempts_direct net 0 i lastErr = (Inl lastErr, [])"
| "fetch_attempts_direct net (Suc k) i lastErr =
     (let r = net i None in
      case r of
        Inr body \<Rightarrow> (Inr body, [r])
      | Inl err \<Rightarrow>
          (case fetch_attempts_direct net k (i + 1) (Some err) of
             (res, log) \<Rightarrow> (res, r # log)))"

definition fetchHtmlWithRetry_utils ::
  "network \<Rightarrow> string \<Rightarrow> int \<Rightarrow> (error + string) \<times> (string + string) list" where
  "fetchHtmlWithRetry_utils net url retries =
     (case fetch_attempts_direct net (nat retries) 1 None of
        (Inr body, log) \<Rightarrow> (Inr body, log)
      | (Inl lastErr, log) \<Rightarrow> (Inl (FetchExhausted url None (err_text lastErr)), log))"




subsection \<open>The store\<close>

text \<open>
  The three tables of the store as lists of rows. Each table has a unique natural key (the
  \<^verbatim>\<open>onConflict\<close> targets of the upserts name it): \<^verbatim>\<open>slug\<close> for series,
  \<^verbatim>\<open>series_slug,season,episode\<close> for episodes and for the latest window. The store generates the
  \<^verbatim>\<open>id\<close> of a row of the latest window. A server entry is a bare embed URL (\<^verbatim>\<open>monitor.js\<close>) or an
  object with an option number, possibly null, and a URL (\<^verbatim>\<open>scraper.js\<close>).
\<close>

datatype server = Plain string | Tagged "nat option" string

record series_row =
  sr_slug :: string
  sr_title :: string
  sr_description :: string
  sr_poster :: "string option"
  sr_year :: "nat option"
  sr_genres :: "string list"

record episode_row =
  ep_series_slug :: string
  ep_season :: nat
  ep_episode :: nat
  ep_title :: string
  ep_thumbnail :: "string option"
  ep_servers :: "server list"

record latest_row =
  lt_id :: nat
  lt_series_slug :: string
  lt_series_title :: string
  lt_season :: nat
  lt_episode :: nat
  lt_episode_title :: string
  lt_thumbnail :: "string option"
  lt_added_at :: nat

definition ep_key :: "episode_row \<Rightarrow> string \<times> nat \<times> nat" where
  "ep_key r = (ep_series_slug r, ep_season r, ep_episode r)"

definition lt_key :: "latest_row \<Rightarrow> string \<times> nat \<times> nat" where
  "lt_key r = (lt_series_slug r, lt_season r, lt_episode r)"

text \<open>
  A call of the store can fail: \<open>down\<close> is the set of the kinds of call that return an error
  object instead of data. What a helper does with the error is part of the helper.
\<close>

datatype db_op =
    SelectSeries | InsertSeries | UpsertSeries
  | SelectEpisode | InsertEpisode | UpsertEpisode
  | SelectLatest | InsertLatest | UpsertLatest | DeleteLatest

record database =
  series_tbl :: "series_row list"
  episodes_tbl :: "episode_row list"
  latest_tbl :: "latest_row list"
  next_id :: nat
  down :: "db_op set"

text \<open>\<^verbatim>\<open>.order('added_at', { ascending: false })\<close>; rows with equal time stamps come in some
  order the store chooses, here a fixed one.\<close>

definition order_desc :: "latest_row list \<Rightarrow> latest_row list" where
  "order_desc rows = rev (sort_key lt_added_at rows)"

text \<open>\<^verbatim>\<open>xs.slice(n)\<close>: a negative \<open>n\<close> counts from the end.\<close>

definition js_slice_from :: "int \<Rightarrow> 'a list \<Rightarrow> 'a list" where
  "js_slice_from n xs =
     (if 0 \<le> n then drop (nat n) xs else drop (length xs - nat (- n)) xs)"

text \<open>
  \<^verbatim>\<open>pruneLatestEpisodes\<close> of \<^verbatim>\<open>lib/supabase-helpers.js\<close>: the error of the select is not read
  (the data is then null and nothing is pruned); rows are deleted by \<^verbatim>\<open>id\<close>, and an error of
  the delete is thrown.
\<close>

definition pruneLatestEpisodes_helpers :: "int \<Rightarrow> database \<Rightarrow> error + database" where
  "pruneLatestEpisodes_helpers maxEpisodes d =
     (if SelectLatest \<in> down d then Inr d
      else
        let allEpisodes = map lt_id (order_desc (latest_tbl d)) in
        if int (length allEpisodes) \<le> maxEpisodes then Inr d
        else
          let toDelete = js_slice_from maxEpisodes allEpisodes in
          if DeleteLatest \<in> down d then Inl (PersistenceFailure ''delete latest_episodes'')
          else Inr (d\<lparr>latest_tbl := filter (\<lambda>r. lt_id r \<notin> set toDelete) (latest_tbl d)\<rparr>))"

text \<open>
  \<^verbatim>\<open>pruneLatestEpisodes\<close> of \<^verbatim>\<open>supabase-client.js\<close>: an error of the select is thrown; rows are
  deleted one by one by their natural key, and an error of a delete is only logged.
\<close>

definition delete_latest :: "database \<Rightarrow> latest_row \<Rightarrow> database" where
  "delete_latest d item =
     (if DeleteLatest \<in> down d then d
      else d\<lparr>latest_tbl := filter (\<lambda>r. lt_key r \<noteq> lt_key item) (latest_tbl d)\<rparr>)"

definition pruneLatestEpisodes_client :: "int \<Rightarrow> database \<Rightarrow> error + database" where
  "pruneLatestEpisodes_client maxCount d =
     (if SelectLatest \<in> down d then Inl (PersistenceFailure ''select latest_episodes'')
      else
        let allLatest = order_desc (latest_tbl d) in
        if maxCount < int (length allLatest)
        then Inr (foldl delete_latest d (js_slice_from maxCount allLatest))
        else Inr d)"

text \<open>The tables are well formed when the keys the store keeps unique are unique.\<close>

definition latest_wf :: "database \<Rightarrow> bool" where
  "latest_wf d =
     (distinct (map lt_id (latest_tbl d)) \<and> distinct (map lt_key (latest_tbl d)))"

text \<open>The words of the specification: a row is among the \<open>N\<close> most recent by \<^verbatim>\<open>added_at\<close>.\<close>

definition recent :: "int \<Rightarrow> latest_row list \<Rightarrow> latest_row \<Rightarrow> bool" where
  "recent N rows r = (r \<in> set (take (nat N) (order_desc rows)))"

text \<open>A latest window for worked examples: twelve rows, inserted with increasing time stamps.\<close>

definition example_row :: "nat \<Rightarrow> latest_row" where
  "example_row i =
     \<lparr>lt_id = i, lt_series_slug = ''naruto'', lt_series_title = ''Naruto'', lt_season = 1,
      lt_episode = i, lt_episode_title = ''Episode'', lt_thumbnail = None,
      lt_added_at = 1000 + i\<rparr>"

definition example_db :: database where
  "example_db =
     \<lparr>series_tbl = [], episodes_tbl = [], latest_tbl = map example_row [1..<13],
      next_id = 13, down = {}\<rparr>"

subsection \<open>Embedded video sources\<close>

text \<open>
  \<^verbatim>\<open>normalizeUrl\<close>: a missing or empty value and a \<^verbatim>\<open>javascript:\<close> URL give null; otherwise the
  URL is resolved against the base. The resolver of the platform is the parameter \<open>R\<close>:
  \<open>R raw\<close> is \<^verbatim>\<open>new URL(raw, base).href\<close>, and \<^term>\<open>None\<close> when the constructor throws.
\<close>

definition is_javascript :: "string \<Rightarrow> bool" where
  "is_javascript s = (map to_lower (take 11 s) = ''javascript:'')"

definition normalizeUrl :: "(string \<Rightarrow> string option) \<Rightarrow> string option \<Rightarrow> string option" where
  "normalizeUrl R rawUrl =
     (case rawUrl of
        None \<Rightarrow> None
      | Some raw \<Rightarrow> if raw = [] \<or> is_javascript raw then None else R raw)"

fun server_url :: "server \<Rightarrow> string" where
  "server_url (Plain u) = u"
| "server_url (Tagged opt u) = u"

fun server_option :: "server \<Rightarrow> nat option" where
  "server_option (Plain u) = None"
| "server_option (Tagged opt u) = opt"

text \<open>The URL an iframe contributes in \<^verbatim>\<open>extractIframeEmbeds\<close>: \<^verbatim>\<open>src || data-src\<close>, normalized,
  and kept when it is truthy.\<close>

definition embed_url :: "(string \<Rightarrow> string option) \<Rightarrow> iframe \<Rightarrow> string option" where
  "embed_url R f =
     (case normalizeUrl R (js_or (if_src f) (if_data_src f)) of
        None \<Rightarrow> None
      | Some u \<Rightarrow> if u \<noteq> [] then Some u else None)"

text \<open>The first loop of \<^verbatim>\<open>extractIframeEmbeds\<close>: for \<open>i\<close> from 1 to 20, the iframes inside
  \<^verbatim>\<open>div#options-i\<close> in document order.\<close>

definition option_embeds :: "(string \<Rightarrow> string option) \<Rightarrow> iframe list \<Rightarrow> nat \<Rightarrow> server list" where
  "option_embeds R fs i =
     concat (map (\<lambda>f. case embed_url R f of
                         None \<Rightarrow> []
                       | Some u \<Rightarrow> [Tagged (Some i) u])
                 (filter (\<lambda>f. i \<in> set (if_options f)) fs))"

definition option_pass :: "(string \<Rightarrow> string option) \<Rightarrow> iframe list \<Rightarrow> server list" where
  "option_pass R fs = concat (map (option_embeds R fs) [1..<21])"

text \<open>The second loop: every iframe of the page, pushed with a null option unless its URL is
  already in the list.\<close>

fun fallback_pass :: "(string \<Rightarrow> string option) \<Rightarrow> server list \<Rightarrow> iframe list \<Rightarrow> server list" where
  "fallback_pass R acc [] = acc"
| "fallback_pass R acc (f # fs) =
     (case embed_url R f of
        None \<Rightarrow> fallback_pass R acc fs
      | Some u \<Rightarrow>
          if list_ex (\<lambda>x. server_url x = u) acc then fallback_pass R acc fs
          else fallback_pass R (acc @ [Tagged None u]) fs)"

definition extractIframeEmbeds :: "(string \<Rightarrow> string option) \<Rightarrow> detail_page \<Rightarrow> server list" where
  "extractIframeEmbeds R page =
     fallback_pass R (option_pass R (iframes page)) (iframes page)"

text \<open>
  The servers loop of \<^verbatim>\<open>scrapeEpisodeDetails\<close> in \<^verbatim>\<open>monitor.js\<close>: the raw \<^verbatim>\<open>src || data-src\<close> of the
  iframes inside \<^verbatim>\<open>div#options-i\<close>, for \<open>i\<close> from 1 to 20, pushed as strings.
\<close>

definition raw_src :: "iframe \<Rightarrow> string option" where
  "raw_src f =
     (case js_or (if_src f) (if_data_src f) of
        None \<Rightarrow> None
      | Some s \<Rightarrow> if s \<noteq> [] then Some s else None)"

definition option_srcs :: "iframe list \<Rightarrow> nat \<Rightarrow> string list" where
  "option_srcs fs i =
     concat (map (\<lambda>f. case raw_src f of None \<Rightarrow> [] | Some s \<Rightarrow> [s])
                 (filter (\<lambda>f. i \<in> set (if_options f)) fs))"

record details =
  d_seriesTitle :: string
  d_seriesSlug :: string
  d_thumbnail :: string
  d_servers :: "string list"

text \<open>\<^verbatim>\<open>scrapeEpisodeDetails\<close> of \<^verbatim>\<open>monitor.js\<close> on a fetched page.\<close>

definition scrapeEpisodeDetails :: "(string \<Rightarrow> string option) \<Rightarrow> detail_page \<Rightarrow> string \<Rightarrow> details" where
  "scrapeEpisodeDetails U page episodeUrl =
     \<lparr>d_seriesTitle = fst (series_identity U page episodeUrl),
      d_seriesSlug = snd (series_identity U page episodeUrl),
      d_thumbnail =
        (case js_or (js_or (video_options_img page) (post_thumbnail_img page)) (og_image page) of
           None \<Rightarrow> []
         | Some t \<Rightarrow> t),
      d_servers = concat (map (option_srcs (iframes page)) [1..<21])\<rparr>"

text \<open>A page for worked examples: one player inside \<^verbatim>\<open>div#options-1\<close> and one outside every
  option container.\<close>

definition example_page :: detail_page where
  "example_page =
     blank_page\<lparr>iframes :=
        [\<lparr>if_src = Some ''https://play.example/embed/1'', if_data_src = None, if_options = [1]\<rparr>,
         \<lparr>if_src = None, if_data_src = Some ''https://cdn.example/player/2'', if_options = []\<rparr>]\<rparr>"

subsection \<open>Persistence helpers of \<^verbatim>\<open>monitor.js\<close> (\<^verbatim>\<open>lib/supabase-helpers.js\<close>)\<close>

text \<open>The episode object that \<^verbatim>\<open>processEpisodeCard\<close> builds.\<close>

record monitor_episode =
  me_series_slug :: string
  me_series_title :: string
  me_season :: nat
  me_episode :: nat
  me_title :: string
  me_thumbnail :: string
  me_servers :: "string list"

definition find_series :: "string \<Rightarrow> database \<Rightarrow> series_row option" where
  "find_series slug d = find (\<lambda>r. sr_slug r = slug) (series_tbl d)"

definition find_episode :: "string \<times> nat \<times> nat \<Rightarrow> database \<Rightarrow> episode_row option" where
  "find_episode k d = find (\<lambda>r. ep_key r = k) (episodes_tbl d)"

definition find_latest :: "string \<times> nat \<times> nat \<Rightarrow> database \<Rightarrow> latest_row option" where
  "find_latest k d = find (\<lambda>r. lt_key r = k) (latest_tbl d)"

text \<open>
  The helpers return the error they throw, if any, and the store as they leave it.
  \<^verbatim>\<open>ensureSeriesExists\<close>: the error of the select is not read; an insert that fails on the
  unique key has a message with \<^verbatim>\<open>duplicate\<close> in it and is ignored. \<open>year\<close> is the current year.
\<close>

definition ensureSeriesExists :: "nat \<Rightarrow> string \<Rightarrow> string \<Rightarrow> database \<Rightarrow> error option \<times> database" where
  "ensureSeriesExists year seriesSlug seriesTitle d =
     (let existing = (if SelectSeries \<in> down d then None else find_series seriesSlug d) in
      if existing \<noteq> None then (None, d)
      else if InsertSeries \<in> down d then (Some (PersistenceFailure ''insert series''), d)
      else if find_series seriesSlug d \<noteq> None then (None, d)
      else (None, d\<lparr>series_tbl := series_tbl d @
              [\<lparr>sr_slug = seriesSlug, sr_title = seriesTitle, sr_description = [],
                sr_poster = Some [], sr_year = Some year, sr_genres = []\<rparr>]\<rparr>))"

definition monitor_row :: "monitor_episode \<Rightarrow> episode_row" where
  "monitor_row e =
     \<lparr>ep_series_slug = me_series_slug e, ep_season = me_season e, ep_episode = me_episode e,
      ep_title = me_title e, ep_thumbnail = Some (me_thumbnail e),
      ep_servers = map Plain (me_servers e)\<rparr>"

text \<open>\<^verbatim>\<open>saveEpisode\<close>: select, return when a row exists, insert otherwise; every error of the
  insert is thrown.\<close>

definition saveEpisode :: "nat \<Rightarrow> monitor_episode \<Rightarrow> database \<Rightarrow> error option \<times> database" where
  "saveEpisode year e d =
     (case ensureSeriesExists year (me_series_slug e) (me_series_title e) d of
        (Some err, d1) \<Rightarrow> (Some err, d1)
      | (None, d1) \<Rightarrow>
          (let k = (me_series_slug e, me_season e, me_episode e);
               existing = (if SelectEpisode \<in> down d1 then None else find_episode k d1) in
           if existing \<noteq> None then (None, d1)
           else if InsertEpisode \<in> down d1
             then (Some (PersistenceFailure ''insert episodes''), d1)
           else if find_episode k d1 \<noteq> None
             then (Some (PersistenceFailure ''duplicate key''), d1)
           else (None, d1\<lparr>episodes_tbl := episodes_tbl d1 @ [monitor_row e]\<rparr>)))"

text \<open>\<^verbatim>\<open>addToLatestEpisodes\<close> of the helpers; \<open>t\<close> is the time the store stamps the new row
  with.\<close>

definition addToLatestEpisodes_helpers ::
  "nat \<Rightarrow> monitor_episode \<Rightarrow> database \<Rightarrow> error option \<times> database" where
  "addToLatestEpisodes_helpers t e d =
     (let k = (me_series_slug e, me_season e, me_episode e);
          existing = (if SelectLatest \<in> down d then None else find_latest k d) in
      if existing \<noteq> None then (None, d)
      else if InsertLatest \<in> down d
        then (Some (PersistenceFailure ''insert latest_episodes''), d)
      else if find_latest k d \<noteq> None then (None, d)
      else (None, d\<lparr>latest_tbl := latest_tbl d @
              [\<lparr>lt_id = next_id d, lt_series_slug = me_series_slug e,
                lt_series_title = me_series_title e, lt_season = me_season e,
                lt_episode = me_episode e, lt_episode_title = me_title e,
                lt_thumbnail = Some (me_thumbnail e), lt_added_at = t\<rparr>],
              next_id := Suc (next_id d)\<rparr>))"

subsection \<open>The card loop of \<^verbatim>\<open>monitor.js\<close>\<close>

record card =
  c_title :: string
  c_url :: string
  c_thumbnail :: "string option"
  c_context :: string

text \<open>
  What the process does not control: \<open>e_site url\<close> is the network as a fetch of \<open>url\<close> finds
  it, \<open>e_parse\<close> is \<^verbatim>\<open>cheerio.load\<close> followed by the selectors, \<open>e_pathname\<close> and \<open>e_resolve\<close> are
  the URL parser, \<open>e_year\<close> and \<open>e_now\<close> the clock, \<open>e_agent_ok\<close> the proxy agent constructor,
  \<open>e_enrich\<close> the metadata collaborator (\<^verbatim>\<open>enrichSeriesWithTMDB\<close>, which never throws), and
  \<open>e_max_retries\<close>, \<open>e_max_latest\<close> the configured \<^verbatim>\<open>MAX_RETRIES\<close> and \<^verbatim>\<open>MAX_LATEST_EPISODES\<close>.
\<close>

record env =
  e_site :: "string \<Rightarrow> network"
  e_parse :: "string \<Rightarrow> detail_page"
  e_pathname :: "string \<Rightarrow> string option"
  e_resolve :: "string \<Rightarrow> string option"
  e_year :: nat
  e_now :: nat
  e_agent_ok :: "string \<Rightarrow> bool"
  e_enrich :: "series_row \<Rightarrow> series_row"
  e_max_retries :: int
  e_max_latest :: int

record monitor_state =
  ms_db :: database
  ms_processed :: "string set"

text \<open>The \<^verbatim>\<open>episodeData\<close> object built from the card, its code and the scraped details.\<close>

definition build_episode :: "env \<Rightarrow> card \<Rightarrow> EpisodeCode \<Rightarrow> string \<Rightarrow> monitor_episode" where
  "build_episode ev c code html =
     (let dt = scrapeEpisodeDetails (e_pathname ev) (e_parse ev html) (c_url c) in
      \<lparr>me_series_slug = d_seriesSlug dt, me_series_title = d_seriesTitle dt,
       me_season = season code, me_episode = episode code, me_title = c_title c,
       me_thumbnail = (case js_or (c_thumbnail c) (Some (d_thumbnail dt)) of
                         None \<Rightarrow> []
                       | Some t \<Rightarrow> t),
       me_servers = d_servers dt\<rparr>)"

text \<open>The three persistence calls of the \<^verbatim>\<open>try\<close> block, in order; the first error ends it.\<close>

definition persist_episode :: "env \<Rightarrow> monitor_episode \<Rightarrow> database \<Rightarrow> error option \<times> database" where
  "persist_episode ev episodeData d =
     (case saveEpisode (e_year ev) episodeData d of
        (Some err, d1) \<Rightarrow> (Some err, d1)
      | (None, d1) \<Rightarrow>
          (case addToLatestEpisodes_helpers (e_now ev) episodeData d1 of
             (Some err, d2) \<Rightarrow> (Some err, d2)
           | (None, d2) \<Rightarrow>
               (case pruneLatestEpisodes_helpers 9 d2 of
                  Inl err \<Rightarrow> (Some err, d2)
                | Inr d3 \<Rightarrow> (None, d3))))"

text \<open>The \<^verbatim>\<open>try\<close> block of \<^verbatim>\<open>processEpisodeCard\<close>: the error that ends it, if any, and the
  store as it is then. The fetch is the one of \<^verbatim>\<open>lib/fetch-utils.js\<close> with its three retries.\<close>

definition processEpisodeCard_try ::
  "env \<Rightarrow> card \<Rightarrow> EpisodeCode \<Rightarrow> database \<Rightarrow> error option \<times> database" where
  "processEpisodeCard_try ev c code d =
     (case fst (fetchHtmlWithRetry_utils (e_site ev (c_url c)) (c_url c) 3) of
        Inl err \<Rightarrow> (Some err, d)
      | Inr html \<Rightarrow> persist_episode ev (build_episode ev c code html) d)"

text \<open>\<^verbatim>\<open>processEpisodeCard\<close>: the key of the dedup cache is the URL of the card; the \<^verbatim>\<open>catch\<close>
  logs the error and returns.\<close>

definition processEpisodeCard :: "env \<Rightarrow> card \<Rightarrow> monitor_state \<Rightarrow> monitor_state" where
  "processEpisodeCard ev c st =
     (case parseEpisodeCode (c_url c) of
        None \<Rightarrow> st
      | Some code \<Rightarrow>
          if c_url c \<in> ms_processed st then st
          else case processEpisodeCard_try ev c code (ms_db st) of
                 (None, d') \<Rightarrow> \<lparr>ms_db = d', ms_processed = insert (c_url c) (ms_processed st)\<rparr>
               | (Some err, d') \<Rightarrow> \<lparr>ms_db = d', ms_processed = ms_processed st\<rparr>)"

text \<open>The \<^verbatim>\<open>for\<close> loop of \<^verbatim>\<open>pollHomepage\<close> in \<^verbatim>\<open>monitor.js\<close>.\<close>

definition processCards :: "env \<Rightarrow> card list \<Rightarrow> monitor_state \<Rightarrow> monitor_state" where
  "processCards ev cs st = foldl (\<lambda>s c. processEpisodeCard ev c s) st cs"

subsection \<open>Persistence gateway of the service (\<^verbatim>\<open>supabase-client.js\<close>)\<close>

text \<open>An upsert on a unique key: the row with the key is replaced where it stands, or the new
  row is appended.\<close>

definition upsert_by :: "('r \<Rightarrow> 'k) \<Rightarrow> 'r \<Rightarrow> 'r list \<Rightarrow> 'r list" where
  "upsert_by key row rows =
     (if list_ex (\<lambda>x. key x = key row) rows
      then map (\<lambda>x. if key x = key row then row else x) rows
      else rows @ [row])"

text \<open>The getters throw every error but the not-found one, which gives null.\<close>

definition getSeriesBySlug :: "string \<Rightarrow> database \<Rightarrow> error + series_row option" where
  "getSeriesBySlug slug d =
     (if SelectSeries \<in> down d then Inl (PersistenceFailure ''select series'')
      else Inr (find_series slug d))"

definition getEpisode :: "string \<times> nat \<times> nat \<Rightarrow> database \<Rightarrow> error + episode_row option" where
  "getEpisode k d =
     (if SelectEpisode \<in> down d then Inl (PersistenceFailure ''select episodes'')
      else Inr (find_episode k d))"

definition upsertSeries :: "series_row \<Rightarrow> database \<Rightarrow> (error + series_row) \<times> database" where
  "upsertSeries row d =
     (if UpsertSeries \<in> down d then (Inl (PersistenceFailure ''upsert series''), d)
      else (Inr row, d\<lparr>series_tbl := upsert_by sr_slug row (series_tbl d)\<rparr>))"

text \<open>\<^verbatim>\<open>upsertEpisode\<close>: \<^verbatim>\<open>onConflict: 'series_slug,season,episode'\<close>.\<close>

definition upsertEpisode :: "episode_row \<Rightarrow> database \<Rightarrow> (error + episode_row) \<times> database" where
  "upsertEpisode row d =
     (if UpsertEpisode \<in> down d then (Inl (PersistenceFailure ''upsert episodes''), d)
      else (Inr row, d\<lparr>episodes_tbl := upsert_by ep_key row (episodes_tbl d)\<rparr>))"

text \<open>
  \<^verbatim>\<open>addToLatestEpisodes\<close> of the gateway: an upsert on the natural key stamped with the time
  \<open>t\<close> (an existing row keeps its \<^verbatim>\<open>id\<close>), then the pruning.
\<close>

definition upsert_latest :: "latest_row \<Rightarrow> database \<Rightarrow> database" where
  "upsert_latest row d =
     (case find_latest (lt_key row) d of
        Some old \<Rightarrow>
          d\<lparr>latest_tbl :=
              map (\<lambda>x. if lt_key x = lt_key row then row\<lparr>lt_id := lt_id old\<rparr> else x)
                (latest_tbl d)\<rparr>
      | None \<Rightarrow>
          d\<lparr>latest_tbl := latest_tbl d @ [row\<lparr>lt_id := next_id d\<rparr>],
            next_id := Suc (next_id d)\<rparr>)"

definition addToLatestEpisodes_client ::
  "nat \<Rightarrow> episode_row \<Rightarrow> string \<Rightarrow> int \<Rightarrow> database \<Rightarrow> error option \<times> database" where
  "addToLatestEpisodes_client t saved series_title maxLatest d =
     (let latestData =
            \<lparr>lt_id = 0, lt_series_slug = ep_series_slug saved,
             lt_series_title = (if series_title \<noteq> [] then series_title else ep_title saved),
             lt_season = ep_season saved, lt_episode = ep_episode saved,
             lt_episode_title = ep_title saved,
             lt_thumbnail = js_or (ep_thumbnail saved) None, lt_added_at = t\<rparr>
      in if UpsertLatest \<in> down d
         then (Some (PersistenceFailure ''upsert latest_episodes''), d)
         else case pruneLatestEpisodes_client maxLatest (upsert_latest latestData d) of
                Inl err \<Rightarrow> (Some err, upsert_latest latestData d)
              | Inr d' \<Rightarrow> (None, d'))"

subsection \<open>The episode scraper of the service (\<^verbatim>\<open>scraper.js\<close>)\<close>

text \<open>Replacing every maximal run of characters of one kind by one character:
  \<^verbatim>\<open>replace(/\s+/g, ' ')\<close>, \<^verbatim>\<open>replace(/\s+/g, '-')\<close>, \<^verbatim>\<open>replace(/-+/g, '-')\<close>.\<close>

function squeeze :: "(char \<Rightarrow> bool) \<Rightarrow> char \<Rightarrow> string \<Rightarrow> string" where
  "squeeze p r [] = []"
| "squeeze p r (c # cs) =
     (if p c then r # squeeze p r (dropWhile p cs) else c # squeeze p r cs)"
  by pat_completeness auto
termination
  by (relation "measure (\<lambda>(p, r, s). length s)")
    (auto simp: length_dropWhile_le less_Suc_eq_le)

text \<open>\<^verbatim>\<open>\w\<close>: letters, digits and the underscore.\<close>

definition is_word :: "char \<Rightarrow> bool" where
  "is_word c =
     (c \<in> set ''abcdefghijklmnopqrstuvwxyzABCDEFGHIJKLMNOPQRSTUVWXYZ0123456789_'')"

definition is_hyphen :: "char \<Rightarrow> bool" where
  "is_hyphen c = (c = CHR ''-'')"

text \<open>\<^verbatim>\<open>cleanSlug\<close>: apostrophes go, then everything that is not a word character, white space
  or a hyphen; white space becomes hyphens, runs of hyphens one hyphen, hyphens at the ends go,
  and the rest is lowered.\<close>

definition cleanSlug :: "string \<Rightarrow> string" where
  "cleanSlug name =
     (let s1 = filter (\<lambda>c. c \<noteq> CHR 0x27) name;
          s2 = filter (\<lambda>c. is_word c \<or> is_space c \<or> is_hyphen c) s1;
          s3 = squeeze is_space CHR ''-'' s2;
          s4 = squeeze is_hyphen CHR ''-'' s3;
          s5 = rev (dropWhile is_hyphen (rev (dropWhile is_hyphen s4)))
      in map to_lower s5)"

text \<open>\<^verbatim>\<open>text.match(/\d{4}/)\<close> and \<^verbatim>\<open>parseInt\<close> of the match.\<close>

fun find_year :: "string \<Rightarrow> nat option" where
  "find_year [] = None"
| "find_year (c # cs) =
     (let w = take 4 (c # cs) in
      if length w = 4 \<and> list_all is_digit w then Some (parseInt w) else find_year cs)"

record common_fields =
  cf_title :: string
  cf_description :: string
  cf_year :: "nat option"
  cf_genres :: "string list"
  cf_thumbnail :: "string option"

text \<open>\<^verbatim>\<open>extractCommonFields\<close>.\<close>

definition or_text :: "string \<Rightarrow> string \<Rightarrow> string" where
  "or_text a b = (if a \<noteq> [] then a else b)"

definition opt_trim :: "string option \<Rightarrow> string" where
  "opt_trim v = (case v of None \<Rightarrow> [] | Some s \<Rightarrow> trim s)"

definition extractCommonFields :: "(string \<Rightarrow> string option) \<Rightarrow> detail_page \<Rightarrow> common_fields" where
  "extractCommonFields R page =
     \<lparr>cf_title = squeeze is_space CHR '' ''
        (or_text (trim (h1_entry_title page))
           (or_text (opt_trim (og_title page)) (trim (title_tag page)))),
      cf_description = squeeze is_space CHR '' ''
        (or_text (opt_trim (og_description page)) (trim (entry_content_p page))),
      cf_year = find_year (year_text page),
      cf_genres = filter (\<lambda>g. g \<noteq> []) (map trim (genre_links page)),
      cf_thumbnail = normalizeUrl R
        (js_or (js_or (div_post_thumbnail_src page) (div_post_thumbnail_data_src page))
           (og_image page))\<rparr>"

text \<open>\<^verbatim>\<open>replace(/-\d+x\d+\/?$/, '')\<close> on a path segment: no \<^verbatim>\<open>i\<close> flag here, and a segment has no
  slash.\<close>

definition strip_code_suffix_cs :: "string \<Rightarrow> string" where
  "strip_code_suffix_cs s =
     (let r = rev s; d2 = takeWhile is_digit r in
      if d2 = [] then s
      else case dropWhile is_digit r of
        [] \<Rightarrow> s
      | c # r1 \<Rightarrow>
          if c = CHR ''x'' then
            (if takeWhile is_digit r1 = [] then s
             else case dropWhile is_digit r1 of
               [] \<Rightarrow> s
             | m # r2 \<Rightarrow> if m = CHR ''-'' then rev r2 else s)
          else s)"

text \<open>
  The series URL and title of \<^verbatim>\<open>scrapeEpisode\<close>: the two breadcrumbs, the URL pattern, the
  \<^verbatim>\<open>og:title\<close>. \<^term>\<open>None\<close> is the \<^verbatim>\<open>return null\<close> of the function.
\<close>

definition breadcrumb_pair ::
  "(string \<Rightarrow> string option) \<Rightarrow> (string \<times> string) option \<Rightarrow> string option \<times> string" where
  "breadcrumb_pair R bc =
     (case bc of
        None \<Rightarrow> (None, [])
      | Some (text, href) \<Rightarrow> (normalizeUrl R (Some href), trim text))"

definition og_series_title :: "detail_page \<Rightarrow> string" where
  "og_series_title page =
     (let t = opt_trim (og_title page) in
      if t \<noteq> [] then (case split_on CHR ''-'' t of [] \<Rightarrow> [] | w # ws \<Rightarrow> trim w) else t)"

definition series_info :: "env \<Rightarrow> detail_page \<Rightarrow> string \<Rightarrow> (string \<times> string) option" where
  "series_info ev page episodeUrl =
     (let b1 = breadcrumb_pair (e_resolve ev) (nav_breadcrumb page);
          b2 = (if \<not> truthy (fst b1) \<or> snd b1 = []
                then breadcrumb_pair (e_resolve ev) (div_breadcrumb page) else b1)
      in if \<not> truthy (fst b2) \<or> snd b2 = [] then
           (case e_pathname ev episodeUrl of
              None \<Rightarrow> None
            | Some pathname \<Rightarrow>
                if path_segments pathname = [] then None
                else
                  (let derivedSlug = strip_code_suffix_cs (last (path_segments pathname));
                       t3 = titleCase derivedSlug;
                       u3 = normalizeUrl (e_resolve ev) (Some (''/series/'' @ derivedSlug @ ''/''));
                       t4 = (if t3 = [] then og_series_title page else t3)
                   in case u3 of
                        None \<Rightarrow> None
                      | Some u \<Rightarrow> if u = [] \<or> t4 = [] then None else Some (u, t4)))
         else (case fst b2 of None \<Rightarrow> None | Some u \<Rightarrow> Some (u, snd b2)))"

text \<open>Decimal digits of a number, for \<^verbatim>\<open>`Episode ${n}`\<close>.\<close>

fun show_nat :: "nat \<Rightarrow> string" where
  "show_nat n =
     (if n < 10 then [char_of (48 + n)]
      else show_nat (n div 10) @ [char_of (48 + n mod 10)])"

type_synonym service_store = "database \<times> ProxyManager"

text \<open>Getting or creating the series row: a row that exists is returned as it is; otherwise
  the series page is fetched, read, enriched and upserted.\<close>

definition get_or_create_series ::
  "env \<Rightarrow> string \<Rightarrow> string \<Rightarrow> string \<Rightarrow> service_store \<Rightarrow> (error + series_row) \<times> service_store" where
  "get_or_create_series ev seriesSlug seriesTitle seriesUrl st =
     (case getSeriesBySlug seriesSlug (fst st) of
        Inl err \<Rightarrow> (Inl err, st)
      | Inr (Some series) \<Rightarrow> (Inr series, st)
      | Inr None \<Rightarrow>
          (case fetchHtmlWithRetry (e_site ev seriesUrl) (e_agent_ok ev) seriesUrl
                  (e_max_retries ev) (snd st) of
             (Inl err, pm', log) \<Rightarrow> (Inl err, (fst st, pm'))
           | (Inr seriesHtml, pm', log) \<Rightarrow>
               (let seriesData = extractCommonFields (e_resolve ev) (e_parse ev seriesHtml);
                    newSeries =
                      \<lparr>sr_slug = seriesSlug, sr_title = seriesTitle,
                       sr_description = cf_description seriesData,
                       sr_poster = cf_thumbnail seriesData, sr_year = cf_year seriesData,
                       sr_genres = cf_genres seriesData\<rparr>
                in case upsertSeries (e_enrich ev newSeries) (fst st) of
                     (Inl err, d') \<Rightarrow> (Inl err, (d', pm'))
                   | (Inr series, d') \<Rightarrow> (Inr series, (d', pm')))))"

text \<open>
  The \<^verbatim>\<open>try\<close> block of \<^verbatim>\<open>scrapeEpisode\<close>: an error it throws, or the value it returns (null or
  the episode row), and the store and proxy manager as they are then.
\<close>

definition scrapeEpisode_try ::
  "env \<Rightarrow> string \<Rightarrow> bool \<Rightarrow> service_store \<Rightarrow> (error + episode_row option) \<times> service_store" where
  "scrapeEpisode_try ev episodeUrl force st =
     (case parseEpisodeCode episodeUrl of
        None \<Rightarrow> (Inr None, st)
      | Some epCode \<Rightarrow>
          (case fetchHtmlWithRetry (e_site ev episodeUrl) (e_agent_ok ev) episodeUrl
                  (e_max_retries ev) (snd st) of
             (Inl err, pm1, log) \<Rightarrow> (Inl err, (fst st, pm1))
           | (Inr html, pm1, log) \<Rightarrow>
               (let page = e_parse ev html in
                case series_info ev page episodeUrl of
                  None \<Rightarrow> (Inr None, (fst st, pm1))
                | Some (seriesUrl, seriesTitle) \<Rightarrow>
                    (let seriesSlug = cleanSlug seriesTitle in
                     case get_or_create_series ev seriesSlug seriesTitle seriesUrl (fst st, pm1) of
                       (Inl err, st2) \<Rightarrow> (Inl err, st2)
                     | (Inr series, st2) \<Rightarrow>
                         (case getEpisode (seriesSlug, season epCode, episode epCode) (fst st2) of
                            Inl err \<Rightarrow> (Inl err, st2)
                          | Inr existing \<Rightarrow>
                              if existing \<noteq> None \<and> \<not> force then (Inr existing, st2)
                              else
                                (let epData = extractCommonFields (e_resolve ev) page;
                                     episodeData =
                                       \<lparr>ep_series_slug = seriesSlug, ep_season = season epCode,
                                        ep_episode = episode epCode,
                                        ep_title = or_text (cf_title epData)
                                          (''Episode '' @ show_nat (episode epCode)),
                                        ep_thumbnail = cf_thumbnail epData,
                                        ep_servers = extractIframeEmbeds (e_resolve ev) page\<rparr>
                                 in case upsertEpisode episodeData (fst st2) of
                                      (Inl err, d3) \<Rightarrow> (Inl err, (d3, snd st2))
                                    | (Inr savedEpisode, d3) \<Rightarrow>
                                        (case addToLatestEpisodes_client (e_now ev) savedEpisode
                                                (sr_title series) (e_max_latest ev) d3 of
                                           (Some err, d4) \<Rightarrow> (Inl err, (d4, snd st2))
                                         | (None, d4) \<Rightarrow>
                                             (Inr (Some savedEpisode), (d4, snd st2)))))))))"

text \<open>\<^verbatim>\<open>scrapeEpisode\<close>: the \<^verbatim>\<open>catch\<close> logs every error and returns null.\<close>

definition scrapeEpisode ::
  "env \<Rightarrow> string \<Rightarrow> bool \<Rightarrow> service_store \<Rightarrow> episode_row option \<times> service_store" where
  "scrapeEpisode ev episodeUrl force st =
     (case scrapeEpisode_try ev episodeUrl force st of
        (Inl err, st') \<Rightarrow> (None, st')
      | (Inr r, st') \<Rightarrow> (r, st'))"

subsection \<open>The card loop of the service (\<^verbatim>\<open>monitor-service.js\<close>)\<close>

text \<open>\<^verbatim>\<open>createEpisodeKey\<close>: the slug of the last path segment and the two digit groups as they
  stand in the URL.\<close>

definition createEpisodeKey :: "(string \<Rightarrow> string option) \<Rightarrow> string \<Rightarrow> string option" where
  "createEpisodeKey U url =
     (case code_search url of
        None \<Rightarrow> None
      | Some (m1, m2) \<Rightarrow>
          (case U url of
             None \<Rightarrow> None
           | Some pathname \<Rightarrow>
               if path_segments pathname = [] then None
               else Some (strip_code_suffix_cs (last (path_segments pathname))
                            @ ''_'' @ m1 @ ''_'' @ m2)))"

record service_state =
  ss_store :: service_store
  ss_processed :: "string set"

text \<open>
  One iteration of the \<^verbatim>\<open>for\<close> loop of \<^verbatim>\<open>pollHomepage\<close>. The call of \<^verbatim>\<open>scrapeEpisode\<close> stands
  in a \<^verbatim>\<open>try\<close> whose \<^verbatim>\<open>catch\<close> would skip the insertion into the dedup cache; the call is
  modelled with the sum it would need to throw.
\<close>

definition service_card :: "env \<Rightarrow> card \<Rightarrow> service_state \<Rightarrow> service_state" where
  "service_card ev c st =
     (case createEpisodeKey (e_pathname ev) (c_url c) of
        None \<Rightarrow> st
      | Some episodeKey \<Rightarrow>
          if episodeKey \<in> ss_processed st then st
          else
            (case (Inr (scrapeEpisode ev (c_url c) False (ss_store st))
                     :: error + episode_row option \<times> service_store) of
               Inl err \<Rightarrow> st
             | Inr (r, store') \<Rightarrow>
                 \<lparr>ss_store = store', ss_processed = insert episodeKey (ss_processed st)\<rparr>))"

definition service_cards :: "env \<Rightarrow> card list \<Rightarrow> service_state \<Rightarrow> service_state" where
  "service_cards ev cs st = foldl (\<lambda>s c. service_card ev c s) st cs"

subsection \<open>Homepage cards (\<^verbatim>\<open>lib/homepage-parser.js\<close>)\<close>

text \<open>
  The homepage as the list of its \<^verbatim>\<open>a[href]\<close> elements in document order. Of each anchor: the
  \<^verbatim>\<open>href\<close> and \<^verbatim>\<open>title\<close> attributes and the text; the \<^verbatim>\<open>data-src\<close> and \<^verbatim>\<open>src\<close> of the first image
  inside it, and of the first image inside the closest card-like ancestor, when there is one;
  the header text, \<^verbatim>\<open>id\<close> and \<^verbatim>\<open>class\<close> of the closest context ancestor, when there is one.
\<close>

record anchor =
  a_href :: string
  a_title :: "string option"
  a_text :: string
  a_img :: "(string option \<times> string option) option"
  a_card_img :: "(string option \<times> string option) option"
  a_context :: "(string \<times> string option \<times> string option) option"

fun has_infix :: "string \<Rightarrow> string \<Rightarrow> bool" where
  "has_infix p [] = (p = [])"
| "has_infix p (c # cs) = (take (length p) (c # cs) = p \<or> has_infix p cs)"

definition starts_with :: "string \<Rightarrow> string \<Rightarrow> bool" where
  "starts_with p s = (take (length p) s = p)"

text \<open>\<^verbatim>\<open>/\/(episode|watch|anime|series)\//i.test(href)\<close> and \<^verbatim>\<open>/\/episode\//i.test(url)\<close>.\<close>

definition matches_content :: "string \<Rightarrow> bool" where
  "matches_content href =
     (let l = map to_lower href in
      has_infix ''/episode/'' l \<or> has_infix ''/watch/'' l \<or>
      has_infix ''/anime/'' l \<or> has_infix ''/series/'' l)"

definition matches_episode :: "string \<Rightarrow> bool" where
  "matches_episode url = has_infix ''/episode/'' (map to_lower url)"

definition image_url ::
  "(string \<Rightarrow> string option) \<Rightarrow> (string option \<times> string option) option \<Rightarrow> string option" where
  "image_url R img =
     (case img of None \<Rightarrow> None | Some (ds, s) \<Rightarrow> normalizeUrl R (js_or ds s))"

text \<open>\<^verbatim>\<open>collectAnchorInfo\<close>; \<open>href\<close> is the normalized \<^verbatim>\<open>href\<close> of the anchor, which the function
  computes again from the same attribute.\<close>

definition collectAnchorInfo :: "(string \<Rightarrow> string option) \<Rightarrow> string \<Rightarrow> anchor \<Rightarrow> card" where
  "collectAnchorInfo R href a =
     (let title = squeeze is_space CHR '' ''
            (case js_or (a_title a) (Some (trim (a_text a))) of None \<Rightarrow> [] | Some t \<Rightarrow> t);
          thumb0 = image_url R (a_img a);
          thumb = (if \<not> truthy thumb0 then
                     (case a_card_img a of None \<Rightarrow> thumb0 | Some i \<Rightarrow> image_url R (Some i))
                   else thumb0);
          context =
            (case a_context a of
               None \<Rightarrow> None
             | Some (headerText, ident, cls) \<Rightarrow>
                 (let v = js_or (js_or (Some (trim headerText)) ident) cls
                  in if truthy v then v else None))
      in \<lparr>c_title = (if title = [] then (case context of None \<Rightarrow> ''Untitled'' | Some x \<Rightarrow> x)
                      else title),
          c_url = href, c_thumbnail = thumb,
          c_context = (case context of None \<Rightarrow> ''page'' | Some x \<Rightarrow> x)\<rparr>)"

text \<open>
  The \<^verbatim>\<open>each\<close> loop of \<^verbatim>\<open>extractHomepageEpisodeCards\<close> with the set \<^verbatim>\<open>seen\<close>; \<open>prefix\<close> is the
  string the \<^verbatim>\<open>href\<close> has to start with.
\<close>

fun extract_loop ::
  "(string \<Rightarrow> string option) \<Rightarrow> string \<Rightarrow> string list \<Rightarrow> anchor list \<Rightarrow> card list" where
  "extract_loop R prefix seen [] = []"
| "extract_loop R prefix seen (a # as) =
     (case normalizeUrl R (Some (a_href a)) of
        None \<Rightarrow> extract_loop R prefix seen as
      | Some href \<Rightarrow>
          if href = [] \<or> \<not> matches_content href then extract_loop R prefix seen as
          else if \<not> starts_with prefix href then extract_loop R prefix seen as
          else if href \<in> set seen then extract_loop R prefix seen as
          else collectAnchorInfo R href a # extract_loop R prefix (href # seen) as)"

text \<open>\<^verbatim>\<open>extractHomepageEpisodeCards\<close> of \<^verbatim>\<open>lib/homepage-parser.js\<close>, and the copy in
  \<^verbatim>\<open>monitor-service.js\<close>, which compares with the configured \<^verbatim>\<open>CONFIG.scraper.url\<close>.\<close>

definition extractHomepageEpisodeCards :: "(string \<Rightarrow> string option) \<Rightarrow> anchor list \<Rightarrow> card list" where
  "extractHomepageEpisodeCards R anchors = extract_loop R ''https://toonstream.love'' [] anchors"

definition extractHomepageEpisodeCards_service ::
  "string \<Rightarrow> (string \<Rightarrow> string option) \<Rightarrow> anchor list \<Rightarrow> card list" where
  "extractHomepageEpisodeCards_service scraper_url R anchors = extract_loop R scraper_url [] anchors"

definition filterRelevantHomepageEntries :: "card list \<Rightarrow> card list" where
  "filterRelevantHomepageEntries entries =
     filter (\<lambda>e. c_url e \<noteq> [] \<and> matches_episode (c_url e)) entries"

text \<open>
  The words of the specification: two URLs are same-origin when scheme, host and port agree.
  \<open>url_origin\<close> reads them off a serialized URL: the scheme, \<^verbatim>\<open>://\<close>, and the authority up to
  the first \<^verbatim>\<open>/\<close>, \<^verbatim>\<open>?\<close> or \<^verbatim>\<open>#\<close>, without the user information before an \<^verbatim>\<open>@\<close>.
\<close>

definition url_origin :: "string \<Rightarrow> string option" where
  "url_origin href =
     (let scheme = takeWhile (\<lambda>c. c \<noteq> CHR '':'') href;
          rest = dropWhile (\<lambda>c. c \<noteq> CHR '':'') href in
      if take 3 rest = ''://'' then
        (let authority = takeWhile (\<lambda>c. c \<notin> set ''/?#'') (drop 3 rest);
             hostport = rev (takeWhile (\<lambda>c. c \<noteq> CHR ''@'') (rev authority))
         in Some (scheme @ ''://'' @ hostport))
      else None)"

definition same_origin :: "string \<Rightarrow> string \<Rightarrow> bool" where
  "same_origin a b = (url_origin a \<noteq> None \<and> url_origin a = url_origin b)"

text \<open>An anchor with nothing but its \<^verbatim>\<open>href\<close> and text, for worked examples.\<close>

definition link :: "string \<Rightarrow> string \<Rightarrow> anchor" where
  "link href text =
     \<lparr>a_href = href, a_title = None, a_text = text, a_img = None, a_card_img = None,
      a_context = None\<rparr>"

subsection \<open>A worked setting\<close>

text \<open>
  Stand-ins for the URL parser on URLs of the site (the path of a URL, and the resolution of a
  path against the base), a network that always answers, pages on which no selector finds
  anything, an empty store, and one card.
\<close>

definition site_pathname :: "string \<Rightarrow> string option" where
  "site_pathname u =
     (if take 23 u = ''https://toonstream.love'' then Some (drop 23 u) else None)"

definition site_resolve :: "string \<Rightarrow> string option" where
  "site_resolve raw =
     (if take 1 raw = ''/'' then Some (''https://toonstream.love'' @ raw) else Some raw)"

definition example_env :: env where
  "example_env =
     \<lparr>e_site = (\<lambda>url i p. Inr ''<html></html>''), e_parse = (\<lambda>html. blank_page),
      e_pathname = site_pathname, e_resolve = site_resolve, e_year = 2025, e_now = 1000,
      e_agent_ok = (\<lambda>p. True), e_enrich = (\<lambda>r. r), e_max_retries = 3, e_max_latest = 9\<rparr>"

definition empty_db :: database where
  "empty_db = \<lparr>series_tbl = [], episodes_tbl = [], latest_tbl = [], next_id = 1, down = {}\<rparr>"

definition example_card :: card where
  "example_card =
     \<lparr>c_title = ''Naruto 1x1'', c_url = ''https://toonstream.love/episode/naruto-1x1/'',
      c_thumbnail = None, c_context = ''page''\<rparr>"

text \<open>The natural key of an episode object.\<close>

definition me_key :: "monitor_episode \<Rightarrow> string \<times> nat \<times> nat" where
  "me_key e = (me_series_slug e, me_season e, me_episode e)"

text \<open>The service with an empty store whose episode upsert fails, and the standalone monitor
  with an empty store whose episode insert fails.\<close>

definition gateway_down :: service_state where
  "gateway_down =
     \<lparr>ss_store = (empty_db\<lparr>down := {UpsertEpisode}\<rparr>, newProxyManager []),
      ss_processed = {}\<rparr>"

definition insert_down :: monitor_state where
  "insert_down = \<lparr>ms_db = empty_db\<lparr>down := {InsertEpisode}\<rparr>, ms_processed = {}\<rparr>"

text \<open>A store that already holds episode 1x1 of a series under an old title, and the episode
  object of a later scrape of the same episode.\<close>

definition old_row :: episode_row where
  "old_row =
     \<lparr>ep_series_slug = ''naruto'', ep_season = 1, ep_episode = 1, ep_title = ''Old title'',
      ep_thumbnail = None, ep_servers = []\<rparr>"

definition stale_db :: database where
  "stale_db = empty_db\<lparr>episodes_tbl := [old_row]\<rparr>"

definition stale_service :: service_state where
  "stale_service = \<lparr>ss_store = (stale_db, newProxyManager []), ss_processed = {}\<rparr>"

definition fresh_episode :: monitor_episode where
  "fresh_episode =
     \<lparr>me_series_slug = ''naruto'', me_series_title = ''Naruto'', me_season = 1, me_episode = 1,
      me_title = ''Naruto 1x1'', me_thumbnail = [], me_servers = [''https://play.example/embed/1'']\<rparr>"

text \<open>A homepage with one link to an episode of the site and one link to another host whose
  name starts with the name of the site.\<close>

definition example_homepage :: "anchor list" where
  "example_homepage =
     [link ''/episode/naruto-1x1/'' ''Naruto 1x1'',
      link ''https://toonstream.love.evil.example/episode/naruto-1x2/'' ''Naruto 1x2'']"

text \<open>The same service state once the store answers again.\<close>

definition gateway_up :: "service_state \<Rightarrow> service_state" where
  "gateway_up st =
     st\<lparr>ss_store := ((fst (ss_store st))\<lparr>down := {}\<rparr>, snd (ss_store st))\<rparr>"

section \<open>Properties\<close>

subsection \<open>Proxy pool\<close>

lemma cursor_ok_new: "cursor_ok (newProxyManager ps)"
  by (cases ps) (simp_all add: cursor_ok_def newProxyManager_def)

lemma getNextProxy_loop_proxies:
  "proxies (snd (getNextProxy_loop n s)) = proxies s"
  by (induction n arbitrary: s) (auto simp: Let_def split: option.splits)

lemma getNextProxy_loop_failed:
  "failedProxies (snd (getNextProxy_loop n s)) = failedProxies s"
  by (induction n arbitrary: s) (auto simp: Let_def split: option.splits)

lemma getNextProxy_loop_cursor:
  "proxies s \<noteq> [] \<Longrightarrow> cursor_ok s \<Longrightarrow> cursor_ok (snd (getNextProxy_loop n s))"
  by (induction n arbitrary: s) (auto simp: Let_def cursor_ok_def split: option.splits)

lemma cursor_ok_getNextProxy: "cursor_ok s \<Longrightarrow> cursor_ok (snd (getNextProxy s))"
proof (cases "proxies s = []")
  case True
  then show ?thesis by (simp add: getNextProxy_def cursor_ok_def)
next
  case False
  assume ok: "cursor_ok s"
  obtain r s' where l: "getNextProxy_loop (length (proxies s)) s = (r, s')"
    by (cases "getNextProxy_loop (length (proxies s)) s")
  from getNextProxy_loop_cursor [OF False ok, of "length (proxies s)"] l
  have "cursor_ok s'" by simp
  with False l show ?thesis
    by (cases r) (simp_all add: getNextProxy_def cursor_ok_def)
qed

lemma cursor_ok_markProxyAsFailed: "cursor_ok s \<Longrightarrow> cursor_ok (markProxyAsFailed p s)"
  by (simp add: cursor_ok_def markProxyAsFailed_def)

text \<open>When every configured proxy is quarantined the loop goes once round and returns nothing.\<close>

lemma getNextProxy_loop_all_failed:
  assumes "set (proxies s) \<subseteq> failedProxies s" and "currentIndex s < length (proxies s)"
  shows "getNextProxy_loop n s =
           (None, s\<lparr>currentIndex := (currentIndex s + n) mod length (proxies s)\<rparr>)"
  using assms
proof (induction n arbitrary: s)
  case 0
  then show ?case by simp
next
  case (Suc n)
  let ?s' = "s\<lparr>currentIndex := (currentIndex s + 1) mod length (proxies s)\<rparr>"
  from Suc.prems have in_failed: "proxies s ! currentIndex s \<in> failedProxies s"
    using nth_mem by blast
  from Suc.prems have pos: "0 < length (proxies s)"
    by (cases "proxies s") simp_all
  have "getNextProxy_loop n ?s' =
          (None, ?s'\<lparr>currentIndex := (currentIndex ?s' + n) mod length (proxies ?s')\<rparr>)"
    by (rule Suc.IH) (use Suc.prems pos in simp_all)
  moreover have "((currentIndex s + 1) mod length (proxies s) + n) mod length (proxies s)
                   = (currentIndex s + Suc n) mod length (proxies s)"
    by (simp add: mod_add_left_eq)
  ultimately show ?case
    using Suc.prems in_failed by (simp add: Let_def)
qed

text \<open>
  C3. In every state of the pool in which all configured proxies are quarantined,
  \<^verbatim>\<open>getNextProxy\<close> empties the quarantine set and returns the first proxy of the configured
  list (not null), leaving the cursor where it was; with an empty configured list it returns
  null and changes nothing.
\<close>

theorem getNextProxy_reset:
  "(proxies s \<noteq> [] \<and> cursor_ok s \<and> set (proxies s) \<subseteq> failedProxies s \<longrightarrow>
      getNextProxy s = (Some (hd (proxies s)), s\<lparr>failedProxies := {}\<rparr>)) \<and>
   (proxies s = [] \<longrightarrow> getNextProxy s = (None, s))"
proof (intro conjI impI)
  assume a: "proxies s \<noteq> [] \<and> cursor_ok s \<and> set (proxies s) \<subseteq> failedProxies s"
  then have idx: "currentIndex s < length (proxies s)"
    by (auto simp: cursor_ok_def)
  from a have sub: "set (proxies s) \<subseteq> failedProxies s" by simp
  have "getNextProxy_loop (length (proxies s)) s = (None, s)"
    using getNextProxy_loop_all_failed [OF sub idx, of "length (proxies s)"] idx by simp
  with a show "getNextProxy s = (Some (hd (proxies s)), s\<lparr>failedProxies := {}\<rparr>)"
    by (simp add: getNextProxy_def hd_conv_nth)
next
  assume "proxies s = []"
  then show "getNextProxy s = (None, s)"
    by (simp add: getNextProxy_def)
qed

theorem getNextProxy_reset_witness:
  "(let s = markProxyAsFailed ''10.0.0.3:8080'' (markProxyAsFailed ''10.0.0.2:8080''
              (markProxyAsFailed ''10.0.0.1:8080''
                (newProxyManager [''10.0.0.1:8080'', ''10.0.0.2:8080'', ''10.0.0.3:8080''])))
    in proxies s \<noteq> [] \<and> cursor_ok s \<and> set (proxies s) \<subseteq> failedProxies s \<and>
       getNextProxy s = (Some ''10.0.0.1:8080'', s\<lparr>failedProxies := {}\<rparr>)) \<and>
   proxies (newProxyManager []) = [] \<and>
   getNextProxy (newProxyManager []) = (None, newProxyManager [])"
  using getNextProxy_reset [of "markProxyAsFailed ''10.0.0.3:8080'' (markProxyAsFailed ''10.0.0.2:8080''
              (markProxyAsFailed ''10.0.0.1:8080''
                (newProxyManager [''10.0.0.1:8080'', ''10.0.0.2:8080'', ''10.0.0.3:8080''])))"]
    getNextProxy_reset [of "newProxyManager []"]
  by (simp add: cursor_ok_def newProxyManager_def markProxyAsFailed_def)

subsection \<open>Episode code parser\<close>

lemma is_x_not_digit: "is_x c \<Longrightarrow> \<not> is_digit c"
  by (auto simp: is_x_def is_digit_def)

lemma code_match_at_sound:
  assumes "code_match_at s = Some (d1, d2)"
  shows "\<exists>c post. s = d1 @ c # d2 @ post \<and> code_shaped (d1 @ c # d2) d1 c d2 \<and>
       (post = [] \<or> \<not> is_digit (hd post))"
proof -
  from assms obtain c r' where d1: "d1 = takeWhile is_digit s" "d1 \<noteq> []"
    and r: "dropWhile is_digit s = c # r'" "is_x c"
    and d2: "d2 = takeWhile is_digit r'" "d2 \<noteq> []"
    by (auto simp: code_match_at_def Let_def split: if_splits list.splits)
  have "s = takeWhile is_digit s @ dropWhile is_digit s" by simp
  also have "\<dots> = d1 @ c # (takeWhile is_digit r' @ dropWhile is_digit r')"
    using d1 r by simp
  finally have s: "s = d1 @ c # d2 @ dropWhile is_digit r'"
    using d2 by simp
  have dig: "list_all is_digit d1" "list_all is_digit d2"
    using d1 d2 by (auto simp: list_all_iff dest: set_takeWhileD)
  have "dropWhile is_digit r' = [] \<or> \<not> is_digit (hd (dropWhile is_digit r'))"
    using hd_dropWhile [of is_digit r'] by blast
  with s dig d1 d2 r show ?thesis
    unfolding code_shaped_def by blast
qed

lemma code_match_at_complete:
  assumes "code_shaped w d1 c d2"
  shows "code_match_at (w @ post) \<noteq> None"
proof -
  from assms have w: "w = d1 @ c # d2" and d1: "d1 \<noteq> []" "\<forall>x\<in>set d1. is_digit x"
    and c: "is_x c" and d2: "d2 \<noteq> []" "\<forall>x\<in>set d2. is_digit x"
    by (auto simp: code_shaped_def list_all_iff)
  have nd: "\<not> is_digit c" using c by (rule is_x_not_digit)
  have t1: "takeWhile is_digit (w @ post) = d1"
    using d1 nd by (simp add: w takeWhile_append2)
  have t2: "dropWhile is_digit (w @ post) = c # d2 @ post"
    using d1 nd by (simp add: w dropWhile_append2)
  have t3: "takeWhile is_digit (d2 @ post) \<noteq> []"
    using d2 by (cases d2) auto
  show ?thesis
    using t1 t2 t3 d1 c by (simp add: code_match_at_def)
qed

lemma has_code_at_Nil: "\<not> has_code_at [] n"
  by (auto simp: has_code_at_def code_shaped_def)

lemma has_code_at_Suc: "has_code_at (c # cs) (Suc n) = has_code_at cs n"
  by (simp add: has_code_at_def)

lemma has_code_at_0: "has_code_at s 0 = (code_match_at s \<noteq> None)"
proof
  assume "has_code_at s 0"
  then obtain w d1 c d2 post where "s = w @ post" "code_shaped w d1 c d2"
    by (auto simp: has_code_at_def)
  then show "code_match_at s \<noteq> None"
    using code_match_at_complete by blast
next
  assume "code_match_at s \<noteq> None"
  then obtain d1 d2 where "code_match_at s = Some (d1, d2)" by auto
  from code_match_at_sound [OF this] show "has_code_at s 0"
    unfolding has_code_at_def by (metis append.assoc append_Cons drop0 le0)
qed

lemma code_search_None: "(code_search s = None) = (\<forall>n. \<not> has_code_at s n)"
proof (induction s)
  case Nil
  then show ?case by (simp add: has_code_at_Nil)
next
  case (Cons c cs)
  have "(\<forall>n. \<not> has_code_at (c # cs) n) =
        (\<not> has_code_at (c # cs) 0 \<and> (\<forall>n. \<not> has_code_at cs n))"
    by (metis has_code_at_Suc not0_implies_Suc)
  with Cons show ?case
    by (simp add: has_code_at_0 split: option.splits)
qed





subsection \<open>Series slug and title from the episode URL\<close>

lemma takeWhile_run: "\<forall>x\<in>set ds. P x \<Longrightarrow> \<not> P c \<Longrightarrow> takeWhile P (ds @ c # r) = ds"
  by (induction ds) auto

lemma dropWhile_run: "\<forall>x\<in>set ds. P x \<Longrightarrow> \<not> P c \<Longrightarrow> dropWhile P (ds @ c # r) = c # r"
  by (induction ds) auto

lemma strip_code_suffix_shaped:
  assumes "code_shaped w d1 c d2"
  shows "strip_code_suffix (pre @ CHR ''-'' # w) = pre"
proof -
  from assms have w: "w = d1 @ c # d2" and d1: "d1 \<noteq> []" "\<forall>x\<in>set d1. is_digit x"
    and c: "is_x c" and d2: "d2 \<noteq> []" "\<forall>x\<in>set d2. is_digit x"
    by (auto simp: code_shaped_def list_all_iff)
  have nd: "\<not> is_digit c" using c by (rule is_x_not_digit)
  have nh: "\<not> is_digit CHR ''-''" by (simp add: is_digit_def)
  have r: "rev (pre @ CHR ''-'' # w) = rev d2 @ c # rev d1 @ CHR ''-'' # rev pre"
    by (simp add: w)
  have t1: "takeWhile is_digit (rev d2 @ c # rev d1 @ CHR ''-'' # rev pre) = rev d2"
    using d2 nd by (simp add: takeWhile_run)
  have t2: "dropWhile is_digit (rev d2 @ c # rev d1 @ CHR ''-'' # rev pre)
              = c # rev d1 @ CHR ''-'' # rev pre"
    using d2 nd by (simp add: dropWhile_run)
  have t3: "takeWhile is_digit (rev d1 @ CHR ''-'' # rev pre) = rev d1"
    using d1 nh by (simp add: takeWhile_run)
  have t4: "dropWhile is_digit (rev d1 @ CHR ''-'' # rev pre) = CHR ''-'' # rev pre"
    using d1 nh by (simp add: dropWhile_run)
  show ?thesis
    using d1 d2 c by (simp add: strip_code_suffix_def r Let_def t1 t2 t3 t4 del: rev_append rev.simps)
qed

text \<open>
  C10. \<^verbatim>\<open>deriveSeriesSlugFromEpisodeUrl\<close> always returns a string: when the URL does not parse
  it returns \<^verbatim>\<open>'unknown'\<close>, as it does when the path has no segment, which are the only ways
  the body can throw; when the last path segment has no digits-\<^verbatim>\<open>x\<close>-digits code it
  returns the segment unchanged, and otherwise the segment with a trailing hyphen-code removed.
\<close>

theorem deriveSeriesSlug_total:
  "(U url = None \<longrightarrow> deriveSeriesSlugFromEpisodeUrl U url = ''unknown'') \<and>
   (\<forall>p. U url = Some p \<and> path_segments p = [] \<longrightarrow>
      deriveSeriesSlugFromEpisodeUrl U url = ''unknown'') \<and>
   (\<forall>p. U url = Some p \<and> path_segments p \<noteq> [] \<and>
        (\<forall>n. \<not> has_code_at (last (path_segments p)) n) \<longrightarrow>
      deriveSeriesSlugFromEpisodeUrl U url = last (path_segments p)) \<and>
   (\<forall>p. U url = Some p \<and> path_segments p \<noteq> [] \<and>
        (\<exists>n. has_code_at (last (path_segments p)) n) \<longrightarrow>
      deriveSeriesSlugFromEpisodeUrl U url = strip_code_suffix (last (path_segments p))) \<and>
   (\<forall>e. deriveSeriesSlug_try U url = Inl e \<longrightarrow>
      deriveSeriesSlugFromEpisodeUrl U url = ''unknown'')"
  using code_search_None
  by (auto simp: deriveSeriesSlugFromEpisodeUrl_def deriveSeriesSlug_try_def Let_def
      split: option.splits)

theorem deriveSeriesSlug_total_witness:
  "site_pathname ''not a url'' = None \<and>
   deriveSeriesSlugFromEpisodeUrl site_pathname ''not a url'' = ''unknown'' \<and>
   site_pathname ''https://toonstream.love/'' = Some ''/'' \<and> path_segments ''/'' = [] \<and>
   deriveSeriesSlugFromEpisodeUrl site_pathname ''https://toonstream.love/'' = ''unknown'' \<and>
   site_pathname ''https://toonstream.love/series/naruto/'' = Some ''/series/naruto/'' \<and>
   last (path_segments ''/series/naruto/'') = ''naruto'' \<and>
   deriveSeriesSlugFromEpisodeUrl site_pathname ''https://toonstream.love/series/naruto/'' = ''naruto''"
proof -
  have 1: "site_pathname ''not a url'' = None"
    by (simp add: site_pathname_def)
  have 2: "site_pathname ''https://toonstream.love/'' = Some ''/''" "path_segments ''/'' = []"
    by (simp_all add: site_pathname_def path_segments_def)
  have 3: "site_pathname ''https://toonstream.love/series/naruto/'' = Some ''/series/naruto/''"
    by (simp add: site_pathname_def)
  have 4: "path_segments ''/series/naruto/'' = [''series'', ''naruto'']"
    by (simp add: path_segments_def)
  have "code_search ''naruto'' = None"
    by (simp add: code_match_at_def is_digit_def is_x_def)
  then have "\<forall>n. \<not> has_code_at ''naruto'' n"
    using code_search_None [of "''naruto''"] by blast
  then have 5: "\<forall>n. \<not> has_code_at (last (path_segments ''/series/naruto/'')) n"
    by (simp add: 4)
  from deriveSeriesSlug_total [of site_pathname "''not a url''"] 1
  have a: "deriveSeriesSlugFromEpisodeUrl site_pathname ''not a url'' = ''unknown''"
    by blast
  from deriveSeriesSlug_total [of site_pathname "''https://toonstream.love/''"] 2
  have b: "deriveSeriesSlugFromEpisodeUrl site_pathname ''https://toonstream.love/'' = ''unknown''"
    by blast
  from deriveSeriesSlug_total [of site_pathname "''https://toonstream.love/series/naruto/''"] 3 4 5
  have c: "deriveSeriesSlugFromEpisodeUrl site_pathname ''https://toonstream.love/series/naruto/''
             = ''naruto''"
    by simp
  from 1 2 3 4 a b c show ?thesis by simp
qed

text \<open>
  C6. When both breadcrumb attempts of \<^verbatim>\<open>scrapeEpisodeDetails\<close> leave the title or the slug
  missing and the last path segment of the episode URL is \<^verbatim>\<open>demon-slayer-2x5\<close>, the series
  slug is \<^verbatim>\<open>demon-slayer\<close> and the series title is \<^verbatim>\<open>Demon Slayer\<close>.
\<close>

theorem series_identity_from_url:
  assumes "breadcrumbs_failed page" and "U url = Some p" and "path_segments p \<noteq> []"
    and "last (path_segments p) = ''demon-slayer-2x5''"
  shows "series_identity U page url = (''Demon Slayer'', ''demon-slayer'')"
proof -
  have c: "code_search ''demon-slayer-2x5'' \<noteq> None"
    by (simp add: code_match_at_def is_digit_def is_x_def)
  have s: "strip_code_suffix ''demon-slayer-2x5'' = ''demon-slayer''"
    by (simp add: strip_code_suffix_def is_digit_def is_x_def)
  have d: "deriveSeriesSlugFromEpisodeUrl U url = ''demon-slayer''"
    using assms(2-4) c s
    by (simp add: deriveSeriesSlugFromEpisodeUrl_def deriveSeriesSlug_try_def)
  have t: "sanitizeTitle (titleCase ''demon-slayer'') = ''Demon Slayer''"
    by (simp add: sanitizeTitle_def titleCase_def capitalize_def to_upper_def trim_def
        paren_match_at_def is_space_def)
  from assms(1) show ?thesis
    by (auto simp: series_identity_def breadcrumbs_failed_def truthy_def d t
        split: option.splits prod.splits)
qed

theorem series_identity_from_url_witness:
  "breadcrumbs_failed blank_page \<and>
   site_pathname ''https://toonstream.love/episode/demon-slayer-2x5/'' = Some ''/episode/demon-slayer-2x5/'' \<and>
   last (path_segments ''/episode/demon-slayer-2x5/'') = ''demon-slayer-2x5'' \<and>
   series_identity site_pathname blank_page
      ''https://toonstream.love/episode/demon-slayer-2x5/'' = (''Demon Slayer'', ''demon-slayer'')"
proof -
  have 1: "breadcrumbs_failed blank_page"
    by (simp add: breadcrumbs_failed_def breadcrumb_identity_def apply_breadcrumb_def truthy_def
        blank_page_def)
  have 2: "site_pathname ''https://toonstream.love/episode/demon-slayer-2x5/'' = Some ''/episode/demon-slayer-2x5/''"
    by (simp add: site_pathname_def)
  have 3: "path_segments ''/episode/demon-slayer-2x5/'' = [''episode'', ''demon-slayer-2x5'']"
    by (simp add: path_segments_def)
  have 4: "path_segments ''/episode/demon-slayer-2x5/'' \<noteq> []"
          "last (path_segments ''/episode/demon-slayer-2x5/'') = ''demon-slayer-2x5''"
    by (simp_all add: 3)
  from series_identity_from_url [of _ site_pathname, OF 1 2 4] 1 2 4 show ?thesis by simp
qed

subsection \<open>Fetch client\<close>







subsection \<open>Latest window\<close>

lemma filter_in_take: "distinct xs \<Longrightarrow> filter (\<lambda>x. x \<in> set (take n xs)) xs = take n xs"
proof (induction xs arbitrary: n)
  case Nil
  then show ?case by simp
next
  case (Cons a xs)
  show ?case
  proof (cases n)
    case 0
    then show ?thesis by simp
  next
    case (Suc m)
    have "filter (\<lambda>x. x = a \<or> x \<in> set (take m xs)) xs = filter (\<lambda>x. x \<in> set (take m xs)) xs"
      using Cons.prems by (intro filter_cong) auto
    with Cons Suc show ?thesis by simp
  qed
qed

lemma filter_in_drop: "distinct xs \<Longrightarrow> filter (\<lambda>x. x \<in> set (drop n xs)) xs = drop n xs"
proof (induction xs arbitrary: n)
  case Nil
  then show ?case by simp
next
  case (Cons a xs)
  show ?case
  proof (cases n)
    case 0
    have "filter (\<lambda>x. x = a \<or> x \<in> set xs) xs = xs"
      by (simp add: filter_id_conv)
    with 0 show ?thesis by simp
  next
    case (Suc m)
    have "a \<notin> set (drop m xs)"
      using Cons.prems in_set_dropD by fastforce
    with Cons Suc show ?thesis by simp
  qed
qed

lemma order_desc_set [simp]: "set (order_desc rows) = set rows"
  by (simp add: order_desc_def)

lemma order_desc_length [simp]: "length (order_desc rows) = length rows"
  by (simp add: order_desc_def)

lemma order_desc_distinct [simp]: "distinct (order_desc rows) = distinct rows"
  by (simp add: order_desc_def)

lemma order_desc_filter: "order_desc (filter P rows) = filter P (order_desc rows)"
  by (simp add: order_desc_def flip: rev_filter filter_sort)

lemma order_desc_sorted:
  "sorted_wrt (\<lambda>a b. lt_added_at b \<le> lt_added_at a) (order_desc rows)"
proof -
  have "sorted (map lt_added_at (sort_key lt_added_at rows))" by simp
  then have "sorted_wrt (\<lambda>a b. lt_added_at a \<le> lt_added_at b) (sort_key lt_added_at rows)"
    by (simp add: sorted_wrt_map)
  then show ?thesis
    by (simp add: order_desc_def sorted_wrt_rev)
qed

lemma order_desc_increasing:
  "sorted_wrt (<) (map lt_added_at rows) \<Longrightarrow> order_desc rows = rev rows"
  by (simp add: order_desc_def sort_key_id_if_sorted strict_sorted_imp_sorted)

lemma foldl_delete_latest:
  "DeleteLatest \<notin> down d \<Longrightarrow>
   foldl delete_latest d items =
     d\<lparr>latest_tbl := filter (\<lambda>r. lt_key r \<notin> lt_key ` set items) (latest_tbl d)\<rparr>"
proof (induction items arbitrary: d)
  case Nil
  then show ?case by simp
next
  case (Cons a items)
  have "DeleteLatest \<notin> down (delete_latest d a)"
    using Cons.prems by (simp add: delete_latest_def)
  from Cons.IH [OF this] have "foldl delete_latest d (a # items) =
      (delete_latest d a)\<lparr>latest_tbl :=
         filter (\<lambda>r. lt_key r \<notin> lt_key ` set items) (latest_tbl (delete_latest d a))\<rparr>"
    by simp
  also have "latest_tbl (delete_latest d a) = filter (\<lambda>r. lt_key r \<noteq> lt_key a) (latest_tbl d)"
    using Cons.prems by (simp add: delete_latest_def)
  also have "filter (\<lambda>r. lt_key r \<notin> lt_key ` set items)
               (filter (\<lambda>r. lt_key r \<noteq> lt_key a) (latest_tbl d))
             = filter (\<lambda>r. lt_key r \<notin> lt_key ` set (a # items)) (latest_tbl d)"
    by (simp add: conj_commute)
  finally show ?case
    using Cons.prems by (simp add: delete_latest_def)
qed

lemma keep_iff:
  assumes "distinct (map f rows)" and "r \<in> set rows" and "set S = set rows" and "distinct S"
  shows "(f r \<notin> f ` set (drop n S)) = (r \<in> set (take n S))"
proof -
  have inj: "inj_on f (set rows)" using assms(1) by (simp add: distinct_map)
  have sub: "set (drop n S) \<subseteq> set rows" using assms(3) set_drop_subset by fastforce
  have "(f r \<in> f ` set (drop n S)) = (r \<in> set (drop n S))"
    using inj_on_image_mem_iff [OF inj assms(2) sub] .
  moreover have "set (take n S) \<inter> set (drop n S) = {}"
    using assms(4) by (simp add: set_take_disj_set_drop_if_distinct)
  moreover have "set (take n S) \<union> set (drop n S) = set rows"
    using assms(3) set_append [of "take n S" "drop n S"] by simp
  ultimately show ?thesis using assms(2) by blast
qed

lemma latest_wf_distinct: "latest_wf d \<Longrightarrow> distinct (latest_tbl d)"
  by (auto simp: latest_wf_def distinct_map)

lemma filter_recent_all:
  "length rows \<le> nat N \<Longrightarrow> filter (recent N rows) rows = rows"
  by (simp add: recent_def filter_id_conv)

lemma prune_helpers_eq:
  assumes "down d = {}" and "0 \<le> N" and "latest_wf d"
  shows "pruneLatestEpisodes_helpers N d =
           Inr (d\<lparr>latest_tbl := filter (recent N (latest_tbl d)) (latest_tbl d)\<rparr>)"
proof (cases "length (latest_tbl d) \<le> nat N")
  case True
  with assms(2) have "int (length (latest_tbl d)) \<le> N" by linarith
  with True assms(1) show ?thesis
    by (simp add: pruneLatestEpisodes_helpers_def filter_recent_all)
next
  case False
  then have gt: "\<not> int (length (latest_tbl d)) \<le> N" by linarith
  let ?S = "order_desc (latest_tbl d)"
  have "filter (\<lambda>r. lt_id r \<notin> set (drop (nat N) (map lt_id ?S))) (latest_tbl d)
          = filter (recent N (latest_tbl d)) (latest_tbl d)"
  proof (rule filter_cong [OF refl])
    fix r assume r: "r \<in> set (latest_tbl d)"
    have "(lt_id r \<notin> lt_id ` set (drop (nat N) ?S)) = (r \<in> set (take (nat N) ?S))"
      using assms(3) r latest_wf_distinct [OF assms(3)]
      by (intro keep_iff [where rows = "latest_tbl d"]) (simp_all add: latest_wf_def)
    then show "(lt_id r \<notin> set (drop (nat N) (map lt_id ?S))) = recent N (latest_tbl d) r"
      by (simp add: recent_def drop_map)
  qed
  with gt assms(1,2) show ?thesis
    by (simp add: pruneLatestEpisodes_helpers_def js_slice_from_def Let_def)
qed

lemma prune_client_eq:
  assumes "down d = {}" and "0 \<le> N" and "latest_wf d"
  shows "pruneLatestEpisodes_client N d =
           Inr (d\<lparr>latest_tbl := filter (recent N (latest_tbl d)) (latest_tbl d)\<rparr>)"
proof (cases "length (latest_tbl d) \<le> nat N")
  case True
  with assms(2) have "\<not> N < int (length (latest_tbl d))" by linarith
  with True assms(1) show ?thesis
    by (simp add: pruneLatestEpisodes_client_def filter_recent_all)
next
  case False
  then have gt: "N < int (length (latest_tbl d))" by linarith
  let ?S = "order_desc (latest_tbl d)"
  have nd: "DeleteLatest \<notin> down d" using assms(1) by simp
  have "filter (\<lambda>r. lt_key r \<notin> lt_key ` set (drop (nat N) ?S)) (latest_tbl d)
          = filter (recent N (latest_tbl d)) (latest_tbl d)"
  proof (rule filter_cong [OF refl])
    fix r assume r: "r \<in> set (latest_tbl d)"
    have "(lt_key r \<notin> lt_key ` set (drop (nat N) ?S)) = (r \<in> set (take (nat N) ?S))"
      using assms(3) r latest_wf_distinct [OF assms(3)]
      by (intro keep_iff [where rows = "latest_tbl d"]) (simp_all add: latest_wf_def)
    then show "(lt_key r \<notin> lt_key ` set (drop (nat N) ?S)) = recent N (latest_tbl d) r"
      by (simp add: recent_def)
  qed
  with gt assms(1,2) show ?thesis
    by (simp add: pruneLatestEpisodes_client_def js_slice_from_def Let_def
        foldl_delete_latest [OF nd])
qed

lemma order_desc_recent:
  "distinct rows \<Longrightarrow> order_desc (filter (recent N rows) rows) = take (nat N) (order_desc rows)"
  unfolding recent_def order_desc_filter
  by (rule filter_in_take) simp

lemma recent_newer:
  assumes "recent N rows kept" and "gone \<in> set rows" and "\<not> recent N rows gone"
  shows "lt_added_at gone \<le> lt_added_at kept"
proof -
  let ?S = "order_desc rows"
  have "sorted_wrt (\<lambda>a b. lt_added_at b \<le> lt_added_at a) (take (nat N) ?S @ drop (nat N) ?S)"
    using order_desc_sorted [of rows] by simp
  then have *: "\<forall>x\<in>set (take (nat N) ?S). \<forall>y\<in>set (drop (nat N) ?S). lt_added_at y \<le> lt_added_at x"
    unfolding sorted_wrt_append by blast
  have "gone \<in> set (take (nat N) ?S) \<union> set (drop (nat N) ?S)"
    using assms(2) set_append [of "take (nat N) ?S" "drop (nat N) ?S"] by simp
  with assms(3) have "gone \<in> set (drop (nat N) ?S)" by (simp add: recent_def)
  with * assms(1) show ?thesis by (simp add: recent_def)
qed

text \<open>
  C4. When the store answers, the maximum count \<open>N\<close> is not negative and the keys of the latest
  window are unique, both \<^verbatim>\<open>pruneLatestEpisodes\<close> functions leave exactly the \<open>N\<close> most recent
  rows by \<^verbatim>\<open>added_at\<close>: read in descending order of time stamps the table is the first \<open>N\<close>
  rows of the old descending order, no other row is kept, none of these is deleted, and every
  deleted row is at most as recent as every kept row. With \<open>N = 9\<close> and twelve rows of strictly increasing time
  stamps the three oldest rows go and the nine most recent remain.
\<close>

theorem pruneLatestEpisodes_keeps_recent:
  assumes "down d = {}" and "0 \<le> N" and "latest_wf d"
  shows "\<exists>kept.
           pruneLatestEpisodes_helpers N d = Inr (d\<lparr>latest_tbl := kept\<rparr>) \<and>
           pruneLatestEpisodes_client N d = Inr (d\<lparr>latest_tbl := kept\<rparr>) \<and>
           set kept \<subseteq> set (latest_tbl d) \<and>
           order_desc kept = take (nat N) (order_desc (latest_tbl d)) \<and>
           sorted_wrt (\<lambda>a b. lt_added_at b \<le> lt_added_at a) (order_desc kept) \<and>
           length kept = min (nat N) (length (latest_tbl d)) \<and>
           (\<forall>k\<in>set kept. \<forall>g\<in>set (latest_tbl d) - set kept.
              lt_added_at g \<le> lt_added_at k) \<and>
           (N = 9 \<and> length (latest_tbl d) = 12 \<and>
            sorted_wrt (<) (map lt_added_at (latest_tbl d)) \<longrightarrow>
              kept = drop 3 (latest_tbl d) \<and> order_desc kept = rev (drop 3 (latest_tbl d)))"
proof -
  let ?rows = "latest_tbl d"
  let ?kept = "filter (recent N ?rows) ?rows"
  have dist: "distinct ?rows" using assms(3) by (rule latest_wf_distinct)
  have ord: "order_desc ?kept = take (nat N) (order_desc ?rows)"
    using dist by (rule order_desc_recent)
  have "length ?kept = length (order_desc ?kept)" by simp
  also have "\<dots> = min (nat N) (length ?rows)" unfolding ord by simp
  finally have len: "length ?kept = min (nat N) (length ?rows)" .
  have newer: "\<forall>k\<in>set ?kept. \<forall>g\<in>set ?rows - set ?kept. lt_added_at g \<le> lt_added_at k"
    by (auto intro: recent_newer)
  have ex: "kept = drop 3 ?rows \<and> order_desc kept = rev (drop 3 ?rows)"
    if k: "kept = ?kept" and h: "N = 9 \<and> length ?rows = 12 \<and> sorted_wrt (<) (map lt_added_at ?rows)"
    for kept
  proof -
    from h have o: "order_desc ?rows = rev ?rows" by (simp add: order_desc_increasing)
    from h have t: "take (nat N) (rev ?rows) = rev (drop 3 ?rows)" by (simp add: take_rev)
    have "recent N ?rows = (\<lambda>r. r \<in> set (drop 3 ?rows))"
      by (rule ext) (simp add: recent_def o t)
    then have "?kept = drop 3 ?rows" using dist by (simp add: filter_in_drop)
    with k ord o t show ?thesis by simp
  qed
  show ?thesis
    using prune_helpers_eq [OF assms] prune_client_eq [OF assms] ord len newer ex [OF refl]
      order_desc_sorted [of ?kept]
    by (intro exI [of _ ?kept]) auto
qed

theorem pruneLatestEpisodes_keeps_recent_witness:
  "down example_db = {} \<and> (0::int) \<le> 9 \<and> latest_wf example_db \<and>
   length (latest_tbl example_db) = 12 \<and>
   sorted_wrt (<) (map lt_added_at (latest_tbl example_db)) \<and>
   pruneLatestEpisodes_helpers 9 example_db =
     Inr (example_db\<lparr>latest_tbl := map example_row [4..<13]\<rparr>) \<and>
   pruneLatestEpisodes_client 9 example_db =
     Inr (example_db\<lparr>latest_tbl := map example_row [4..<13]\<rparr>) \<and>
   order_desc (map example_row [4..<13]) = rev (map example_row [4..<13])"
proof -
  have u: "[Suc 0..<13] = [1,2,3,4,5,6,7,8,9,10,11,12::nat]"
    "[1..<13] = [1,2,3,4,5,6,7,8,9,10,11,12::nat]" "[4..<13] = [4,5,6,7,8,9,10,11,12::nat]"
    by (simp_all add: upt_rec)
  have 1: "down example_db = {}" by (simp add: example_db_def)
  have 2: "(0::int) \<le> 9" by simp
  have 3: "latest_wf example_db"
    by (simp add: latest_wf_def example_db_def u example_row_def lt_key_def)
  have 4: "length (latest_tbl example_db) = 12" by (simp add: example_db_def)
  have 5: "sorted_wrt (<) (map lt_added_at (latest_tbl example_db))"
    by (simp add: example_db_def u example_row_def)
  have 6: "drop 3 (latest_tbl example_db) = map example_row [4..<13]"
    by (simp add: example_db_def u)
  from pruneLatestEpisodes_keeps_recent [OF 1 2 3] 4 5 6
  have "pruneLatestEpisodes_helpers 9 example_db =
          Inr (example_db\<lparr>latest_tbl := map example_row [4..<13]\<rparr>) \<and>
        pruneLatestEpisodes_client 9 example_db =
          Inr (example_db\<lparr>latest_tbl := map example_row [4..<13]\<rparr>) \<and>
        order_desc (map example_row [4..<13]) = rev (map example_row [4..<13])"
    by auto
  with 1 2 3 4 5 show ?thesis by blast
qed

subsection \<open>Embedded video sources\<close>

lemma fallback_pass_spec:
  "\<exists>extra. fallback_pass R acc fs = acc @ extra \<and>
     (\<forall>e\<in>set extra. \<exists>u. e = Tagged None u \<and> u \<notin> server_url ` set acc \<and>
        (\<exists>f\<in>set fs. embed_url R f = Some u)) \<and>
     distinct (map server_url extra) \<and>
     (\<forall>f\<in>set fs. \<forall>u. embed_url R f = Some u \<longrightarrow> u \<in> server_url ` set (acc @ extra))"
proof (induction fs arbitrary: acc)
  case Nil
  then show ?case by simp
next
  case (Cons f fs)
  show ?case
  proof (cases "embed_url R f")
    case None
    from Cons.IH [of acc] obtain extra where e:
      "fallback_pass R acc fs = acc @ extra"
      "\<forall>e\<in>set extra. \<exists>u. e = Tagged None u \<and> u \<notin> server_url ` set acc \<and>
        (\<exists>f\<in>set fs. embed_url R f = Some u)"
      "distinct (map server_url extra)"
      "\<forall>f\<in>set fs. \<forall>u. embed_url R f = Some u \<longrightarrow> u \<in> server_url ` set (acc @ extra)"
      by blast
    have 1: "fallback_pass R acc (f # fs) = acc @ extra"
      using None e(1) by simp
    have 2: "\<forall>e\<in>set extra. \<exists>v. e = Tagged None v \<and>
               v \<notin> server_url ` set acc \<and> (\<exists>g\<in>set (f # fs). embed_url R g = Some v)"
      using e(2) by fastforce
    have 4: "\<forall>g\<in>set (f # fs). \<forall>v. embed_url R g = Some v \<longrightarrow>
               v \<in> server_url ` set (acc @ extra)"
      using e(4) None by simp
    from 1 2 e(3) 4 show ?thesis by blast
  next
    case (Some u)
    show ?thesis
    proof (cases "list_ex (\<lambda>x. server_url x = u) acc")
      case True
      then have mem: "u \<in> server_url ` set acc" by (auto simp: list_ex_iff)
      from Cons.IH [of acc] obtain extra where e:
        "fallback_pass R acc fs = acc @ extra"
        "\<forall>e\<in>set extra. \<exists>u. e = Tagged None u \<and> u \<notin> server_url ` set acc \<and>
          (\<exists>f\<in>set fs. embed_url R f = Some u)"
        "distinct (map server_url extra)"
        "\<forall>f\<in>set fs. \<forall>u. embed_url R f = Some u \<longrightarrow> u \<in> server_url ` set (acc @ extra)"
        by blast
      have 1: "fallback_pass R acc (f # fs) = acc @ extra"
        using Some True e(1) by simp
      have 2: "\<forall>e\<in>set extra. \<exists>v. e = Tagged None v \<and>
                 v \<notin> server_url ` set acc \<and> (\<exists>g\<in>set (f # fs). embed_url R g = Some v)"
        using e(2) by fastforce
      have 4: "\<forall>g\<in>set (f # fs). \<forall>v. embed_url R g = Some v \<longrightarrow>
                 v \<in> server_url ` set (acc @ extra)"
        using e(4) Some mem by auto
      from 1 2 e(3) 4 show ?thesis by blast
    next
      case False
      then have nmem: "u \<notin> server_url ` set acc" by (auto simp: list_ex_iff)
      from Cons.IH [of "acc @ [Tagged None u]"] obtain extra where e:
        "fallback_pass R (acc @ [Tagged None u]) fs = (acc @ [Tagged None u]) @ extra"
        "\<forall>e\<in>set extra. \<exists>v. e = Tagged None v \<and> v \<notin> server_url ` set (acc @ [Tagged None u]) \<and>
          (\<exists>f\<in>set fs. embed_url R f = Some v)"
        "distinct (map server_url extra)"
        "\<forall>f\<in>set fs. \<forall>v. embed_url R f = Some v \<longrightarrow>
            v \<in> server_url ` set ((acc @ [Tagged None u]) @ extra)"
        by blast
      have 1: "fallback_pass R acc (f # fs) = acc @ (Tagged None u # extra)"
        using Some False e(1) by simp
      have 2: "\<forall>e\<in>set (Tagged None u # extra). \<exists>v. e = Tagged None v \<and>
                 v \<notin> server_url ` set acc \<and> (\<exists>g\<in>set (f # fs). embed_url R g = Some v)"
        using e(2) Some nmem by fastforce
      have 3: "distinct (map server_url (Tagged None u # extra))"
        using e(2,3) by auto
      have 4: "\<forall>g\<in>set (f # fs). \<forall>v. embed_url R g = Some v \<longrightarrow>
                 v \<in> server_url ` set (acc @ (Tagged None u # extra))"
        using e(4) Some by auto
      from 1 2 3 4 show ?thesis by blast
    qed
  qed
qed

lemma set_option_pass:
  "set (option_pass R fs) =
     {Tagged (Some i) u | i u. 1 \<le> i \<and> i \<le> 20 \<and>
        (\<exists>f\<in>set fs. i \<in> set (if_options f) \<and> embed_url R f = Some u)}"
  apply (auto simp: option_pass_def option_embeds_def split: option.splits)
  subgoal for i u f by (rule exI [of _ f]) simp
  done

lemma set_option_srcs_i:
  "set (option_srcs fs i) = {s. \<exists>f\<in>set fs. i \<in> set (if_options f) \<and> raw_src f = Some s}"
proof (intro set_eqI iffI)
  fix s assume "s \<in> set (option_srcs fs i)"
  then obtain f where "f \<in> set fs" "i \<in> set (if_options f)" "raw_src f = Some s"
    by (auto simp: option_srcs_def split: option.splits)
  then show "s \<in> {s. \<exists>f\<in>set fs. i \<in> set (if_options f) \<and> raw_src f = Some s}" by blast
next
  fix s assume "s \<in> {s. \<exists>f\<in>set fs. i \<in> set (if_options f) \<and> raw_src f = Some s}"
  then obtain f where "f \<in> set fs" "i \<in> set (if_options f)" "raw_src f = Some s" by blast
  then show "s \<in> set (option_srcs fs i)"
    by (force simp: option_srcs_def)
qed

lemma set_option_srcs:
  "set (concat (map (option_srcs fs) [1..<21])) =
     {s. \<exists>i f. 1 \<le> i \<and> i \<le> 20 \<and> f \<in> set fs \<and> i \<in> set (if_options f) \<and> raw_src f = Some s}"
proof (intro set_eqI iffI)
  fix s assume "s \<in> set (concat (map (option_srcs fs) [1..<21]))"
  then obtain i where i: "1 \<le> i" "i < 21" "s \<in> set (option_srcs fs i)" by auto
  then obtain f where "f \<in> set fs" "i \<in> set (if_options f)" "raw_src f = Some s"
    unfolding set_option_srcs_i by blast
  moreover from i have "i \<le> 20" by simp
  ultimately show "s \<in> {s. \<exists>i f. 1 \<le> i \<and> i \<le> 20 \<and> f \<in> set fs \<and> i \<in> set (if_options f) \<and> raw_src f = Some s}"
    using i(1) by blast
next
  fix s assume "s \<in> {s. \<exists>i f. 1 \<le> i \<and> i \<le> 20 \<and> f \<in> set fs \<and> i \<in> set (if_options f) \<and> raw_src f = Some s}"
  then obtain i f where i: "1 \<le> i" "i \<le> 20" and f: "f \<in> set fs" "i \<in> set (if_options f)" "raw_src f = Some s"
    by blast
  from f have "s \<in> set (option_srcs fs i)" unfolding set_option_srcs_i by blast
  moreover from i have "i \<in> set [1..<21]" by simp
  ultimately show "s \<in> set (concat (map (option_srcs fs) [1..<21]))" by auto
qed

text \<open>
  C8, as amended. In \<^verbatim>\<open>scraper.js\<close> the servers of an episode are \<^verbatim>\<open>extractIframeEmbeds\<close> of
  the page: first, for each option number from 1 to 20 in turn, the normalized source of every
  iframe inside that option container, tagged with the number; then, tagged null and without
  repetition, the sources of iframes anywhere on the page that are not yet in the list, so that
  the URLs of the list are exactly the normalized sources of the iframes of the page. In
  \<^verbatim>\<open>monitor.js\<close> the servers are the raw sources of the iframes inside the option containers
  1 to 20 and nothing else.
\<close>

theorem extractIframeEmbeds_collects:
  "\<exists>extra.
     extractIframeEmbeds R page = option_pass R (iframes page) @ extra \<and>
     set (option_pass R (iframes page)) =
       {Tagged (Some i) u | i u. 1 \<le> i \<and> i \<le> 20 \<and>
          (\<exists>f\<in>set (iframes page). i \<in> set (if_options f) \<and> embed_url R f = Some u)} \<and>
     (\<forall>e\<in>set extra. server_option e = None \<and>
        server_url e \<notin> server_url ` set (option_pass R (iframes page))) \<and>
     distinct (map server_url extra) \<and>
     server_url ` set (extractIframeEmbeds R page) =
       {u. \<exists>f\<in>set (iframes page). embed_url R f = Some u} \<and>
     set (d_servers (scrapeEpisodeDetails U page url)) =
       {s. \<exists>i f. 1 \<le> i \<and> i \<le> 20 \<and> f \<in> set (iframes page) \<and> i \<in> set (if_options f) \<and>
          raw_src f = Some s}"
proof -
  let ?fs = "iframes page"
  let ?acc = "option_pass R ?fs"
  from fallback_pass_spec [of R ?acc ?fs] obtain extra where e:
    "fallback_pass R ?acc ?fs = ?acc @ extra"
    "\<forall>e\<in>set extra. \<exists>u. e = Tagged None u \<and> u \<notin> server_url ` set ?acc \<and>
        (\<exists>f\<in>set ?fs. embed_url R f = Some u)"
    "distinct (map server_url extra)"
    "\<forall>f\<in>set ?fs. \<forall>u. embed_url R f = Some u \<longrightarrow> u \<in> server_url ` set (?acc @ extra)"
    by blast
  have 1: "extractIframeEmbeds R page = ?acc @ extra"
    using e(1) by (simp add: extractIframeEmbeds_def)
  have 3: "\<forall>e\<in>set extra. server_option e = None \<and> server_url e \<notin> server_url ` set ?acc"
    using e(2) by fastforce
  have sub_acc: "server_url ` set ?acc \<subseteq> {u. \<exists>f\<in>set ?fs. embed_url R f = Some u}"
    unfolding set_option_pass by auto
  have sub_extra: "server_url ` set extra \<subseteq> {u. \<exists>f\<in>set ?fs. embed_url R f = Some u}"
    using e(2) by fastforce
  have sup: "{u. \<exists>f\<in>set ?fs. embed_url R f = Some u} \<subseteq> server_url ` set (?acc @ extra)"
    using e(4) by blast
  have 5: "server_url ` set (extractIframeEmbeds R page) =
             {u. \<exists>f\<in>set ?fs. embed_url R f = Some u}"
    unfolding 1 using sub_acc sub_extra sup by (simp add: image_Un) blast
  have 6: "set (d_servers (scrapeEpisodeDetails U page url)) =
       {s. \<exists>i f. 1 \<le> i \<and> i \<le> 20 \<and> f \<in> set ?fs \<and> i \<in> set (if_options f) \<and> raw_src f = Some s}"
    by (simp only: scrapeEpisodeDetails_def details.simps set_option_srcs)
  from 1 set_option_pass [of R ?fs] 3 e(3) 5 6 show ?thesis by blast
qed

theorem extractIframeEmbeds_collects_witness:
  "extractIframeEmbeds Some example_page =
     [Tagged (Some 1) ''https://play.example/embed/1'',
      Tagged None ''https://cdn.example/player/2''] \<and>
   server_url ` set (extractIframeEmbeds Some example_page) =
     {u. \<exists>f\<in>set (iframes example_page). embed_url Some f = Some u}"
proof -
  have "[1..<21] = [1,2,3,4,5,6,7,8,9,10,11,12,13,14,15,16,17,18,19,20::nat]"
    by (simp add: upt_rec)
  then have "extractIframeEmbeds Some example_page =
     [Tagged (Some 1) ''https://play.example/embed/1'',
      Tagged None ''https://cdn.example/player/2'']"
    by (simp add: extractIframeEmbeds_def example_page_def blank_page_def option_pass_def option_embeds_def
        embed_url_def normalizeUrl_def js_or_def truthy_def is_javascript_def to_lower_def)
  with extractIframeEmbeds_collects [of Some example_page] show ?thesis
    by blast
qed

text \<open>
  The claim as written speaks of every detail page and every resulting episode record. On a
  page with a player outside the option containers \<^verbatim>\<open>extractIframeEmbeds\<close> collects it with a
  null option, and the scraper of \<^verbatim>\<open>monitor.js\<close> does not collect it at all.
\<close>

theorem monitor_servers_counterexample:
  "Tagged None ''https://cdn.example/player/2'' \<in> set (extractIframeEmbeds Some example_page) \<and>
   d_servers (scrapeEpisodeDetails site_pathname example_page
      ''https://toonstream.love/episode/naruto-1x1/'') = [''https://play.example/embed/1''] \<and>
   ''https://cdn.example/player/2'' \<notin> set (d_servers (scrapeEpisodeDetails site_pathname
      example_page ''https://toonstream.love/episode/naruto-1x1/''))"
proof -
  have u: "[1..<21] = [1,2,3,4,5,6,7,8,9,10,11,12,13,14,15,16,17,18,19,20::nat]"
    by (simp add: upt_rec)
  have a: "extractIframeEmbeds Some example_page =
     [Tagged (Some 1) ''https://play.example/embed/1'',
      Tagged None ''https://cdn.example/player/2'']"
    using u
    by (simp add: extractIframeEmbeds_def example_page_def blank_page_def option_pass_def option_embeds_def
        embed_url_def normalizeUrl_def js_or_def truthy_def is_javascript_def to_lower_def)
  have b: "d_servers (scrapeEpisodeDetails site_pathname example_page
      ''https://toonstream.love/episode/naruto-1x1/'') = [''https://play.example/embed/1'']"
    using u
    by (simp add: scrapeEpisodeDetails_def example_page_def blank_page_def option_srcs_def raw_src_def
        js_or_def truthy_def)
  show ?thesis by (simp add: a b)
qed

subsection \<open>Episode persistence\<close>

lemma find_snoc:
  "find P (xs @ [x]) = (case find P xs of Some y \<Rightarrow> Some y | None \<Rightarrow> if P x then Some x else None)"
  by (induction xs) auto

lemma upsert_by_idem: "upsert_by key row (upsert_by key row rows) = upsert_by key row rows"
proof (cases "list_ex (\<lambda>x. key x = key row) rows")
  case True
  then have "list_ex (\<lambda>x. key x = key row) (map (\<lambda>x. if key x = key row then row else x) rows)"
    by (auto simp: list_ex_iff)
  with True show ?thesis
    by (simp add: upsert_by_def)
next
  case False
  then have "map (\<lambda>x. if key x = key row then row else x) rows = rows"
    by (auto simp: list_ex_iff intro: map_idI)
  with False show ?thesis
    by (simp add: upsert_by_def)
qed

lemma find_upsert_by: "find (\<lambda>x. key x = key row) (upsert_by key row rows) = Some row"
proof (cases "list_ex (\<lambda>x. key x = key row) rows")
  case True
  then have "find (\<lambda>x. key x = key row) (map (\<lambda>x. if key x = key row then row else x) rows) = Some row"
    by (induction rows) auto
  with True show ?thesis by (simp add: upsert_by_def)
next
  case False
  then have "find (\<lambda>x. key x = key row) rows = None"
    by (auto simp: list_ex_iff find_None_iff)
  with False show ?thesis by (simp add: upsert_by_def find_snoc)
qed

lemma upsertEpisode_idem:
  "snd (upsertEpisode row (snd (upsertEpisode row d))) = snd (upsertEpisode row d)"
  by (simp add: upsertEpisode_def upsert_by_idem)

lemma upsertEpisode_stores:
  "UpsertEpisode \<notin> down d \<Longrightarrow> find_episode (ep_key row) (snd (upsertEpisode row d)) = Some row"
  by (simp add: upsertEpisode_def find_episode_def find_upsert_by)

lemma ensureSeriesExists_idem:
  "snd (ensureSeriesExists y s t (snd (ensureSeriesExists y s t d))) = snd (ensureSeriesExists y s t d)"
  by (simp add: ensureSeriesExists_def find_series_def find_snoc Let_def)

lemma ensureSeriesExists_down [simp]: "down (snd (ensureSeriesExists y s t d)) = down d"
  by (simp add: ensureSeriesExists_def Let_def)

lemma ensureSeriesExists_episodes [simp]:
  "episodes_tbl (snd (ensureSeriesExists y s t d)) = episodes_tbl d"
  by (simp add: ensureSeriesExists_def Let_def)

lemma ensureSeriesExists_again:
  "fst (ensureSeriesExists y s t d) = None \<Longrightarrow>
   ensureSeriesExists y s t (snd (ensureSeriesExists y s t d)) = (None, snd (ensureSeriesExists y s t d))"
  by (auto simp: ensureSeriesExists_def find_series_def find_snoc Let_def split: if_splits)

lemma saveEpisode_idem:
  "snd (saveEpisode y e (snd (saveEpisode y e d))) = snd (saveEpisode y e d)"
  by (auto simp: saveEpisode_def ensureSeriesExists_def find_series_def find_episode_def
      find_snoc Let_def monitor_row_def ep_key_def split: prod.splits option.splits if_splits)

lemma saveEpisode_success_exists:
  "fst (saveEpisode y e d) = None \<Longrightarrow> find_episode (me_key e) (snd (saveEpisode y e d)) \<noteq> None"
  by (auto simp: saveEpisode_def me_key_def find_episode_def find_snoc Let_def monitor_row_def
      ep_key_def split: prod.splits option.splits if_splits)

lemma saveEpisode_keeps_existing:
  assumes "find_episode (me_key e) d \<noteq> None"
  shows "episodes_tbl (snd (saveEpisode y e d)) = episodes_tbl d"
proof -
  obtain r1 d1 where s: "ensureSeriesExists y (me_series_slug e) (me_series_title e) d = (r1, d1)"
    by (cases "ensureSeriesExists y (me_series_slug e) (me_series_title e) d")
  have e1: "episodes_tbl d1 = episodes_tbl d"
    using ensureSeriesExists_episodes [of y "me_series_slug e" "me_series_title e" d] s by simp
  with assms have "find_episode (me_key e) d1 \<noteq> None"
    by (simp add: find_episode_def)
  with s e1 show ?thesis
    by (auto simp: saveEpisode_def me_key_def Let_def split: option.splits)
qed

lemma saveEpisode_inserts:
  "down d = {} \<Longrightarrow> find_episode (me_key e) d = None \<Longrightarrow>
     find_episode (me_key e) (snd (saveEpisode y e d)) = Some (monitor_row e)"
  by (auto simp: saveEpisode_def me_key_def find_episode_def find_snoc Let_def monitor_row_def
      ep_key_def ensureSeriesExists_def split: prod.splits option.splits if_splits)

lemma addToLatest_helpers_episodes [simp]:
  "episodes_tbl (snd (addToLatestEpisodes_helpers t e d)) = episodes_tbl d"
  by (simp add: addToLatestEpisodes_helpers_def Let_def)

lemma prune_helpers_episodes:
  "pruneLatestEpisodes_helpers N d = Inr d' \<Longrightarrow> episodes_tbl d' = episodes_tbl d"
  by (auto simp: pruneLatestEpisodes_helpers_def Let_def split: if_splits)

lemma persist_episode_episodes:
  "episodes_tbl (snd (persist_episode ev e d)) = episodes_tbl (snd (saveEpisode (e_year ev) e d))"
proof -
  obtain r1 d1 where s: "saveEpisode (e_year ev) e d = (r1, d1)"
    by (cases "saveEpisode (e_year ev) e d")
  obtain r2 d2 where a: "addToLatestEpisodes_helpers (e_now ev) e d1 = (r2, d2)"
    by (cases "addToLatestEpisodes_helpers (e_now ev) e d1")
  have e2: "episodes_tbl d2 = episodes_tbl d1"
    using addToLatest_helpers_episodes [of "e_now ev" e d1] a by simp
  show ?thesis
    using s a e2 prune_helpers_episodes [of 9 d2]
    by (auto simp: persist_episode_def split: option.splits sum.splits)
qed

lemma persist_episode_success:
  "fst (persist_episode ev e d) = None \<Longrightarrow> fst (saveEpisode (e_year ev) e d) = None"
  by (auto simp: persist_episode_def split: prod.splits option.splits sum.splits)

lemma find_episode_cong: "episodes_tbl d = episodes_tbl d' \<Longrightarrow> find_episode k d = find_episode k d'"
  by (simp add: find_episode_def)

lemma processEpisodeCard_try_again:
  assumes "fst (processEpisodeCard_try ev c code d) = None"
  shows "episodes_tbl (snd (processEpisodeCard_try ev c code (snd (processEpisodeCard_try ev c code d))))
           = episodes_tbl (snd (processEpisodeCard_try ev c code d))"
proof (cases "fst (fetchHtmlWithRetry_utils (e_site ev (c_url c)) (c_url c) 3)")
  case (Inl err)
  with assms show ?thesis by (simp add: processEpisodeCard_try_def)
next
  case (Inr html)
  let ?e = "build_episode ev c code html"
  let ?d1 = "snd (persist_episode ev ?e d)"
  from assms Inr have ok: "fst (persist_episode ev ?e d) = None"
    by (simp add: processEpisodeCard_try_def)
  then have "find_episode (me_key ?e) (snd (saveEpisode (e_year ev) ?e d)) \<noteq> None"
    using persist_episode_success saveEpisode_success_exists by blast
  then have ex: "find_episode (me_key ?e) ?d1 \<noteq> None"
    using find_episode_cong [OF persist_episode_episodes [of ev ?e d]] by simp
  have "episodes_tbl (snd (persist_episode ev ?e ?d1)) = episodes_tbl ?d1"
    using saveEpisode_keeps_existing [OF ex] persist_episode_episodes [of ev ?e ?d1] by simp
  with Inr show ?thesis by (simp add: processEpisodeCard_try_def)
qed

lemma processEpisodeCard_twice:
  assumes "c_url c \<notin> ms_processed st" and "c_url c \<in> ms_processed (processEpisodeCard ev c st)"
  shows "episodes_tbl (ms_db (processEpisodeCard ev c
            ((processEpisodeCard ev c st)\<lparr>ms_processed := {}\<rparr>)))
         = episodes_tbl (ms_db (processEpisodeCard ev c st))"
proof -
  from assms obtain code where code: "parseEpisodeCode (c_url c) = Some code"
    and ok: "fst (processEpisodeCard_try ev c code (ms_db st)) = None"
    by (auto simp: processEpisodeCard_def split: option.splits prod.splits if_splits)
  let ?t = "processEpisodeCard_try ev c code (ms_db st)"
  have st1: "ms_db (processEpisodeCard ev c st) = snd ?t"
    using assms(1) code ok by (auto simp: processEpisodeCard_def split: prod.splits option.splits)
  have "ms_db (processEpisodeCard ev c ((processEpisodeCard ev c st)\<lparr>ms_processed := {}\<rparr>))
          = snd (processEpisodeCard_try ev c code (snd ?t))"
    using code st1 by (auto simp: processEpisodeCard_def split: prod.splits option.splits)
  with processEpisodeCard_try_again [OF ok] st1 show ?thesis by simp
qed

subsection \<open>Dedup cache and card loops\<close>

lemma service_card_marks:
  "createEpisodeKey (e_pathname ev) (c_url c) = Some k \<Longrightarrow> k \<in> ss_processed (service_card ev c st)"
  by (simp add: service_card_def split: prod.splits)

lemma processEpisodeCard_marks:
  "c_url c \<in> ms_processed (processEpisodeCard ev c st) \<longleftrightarrow>
     c_url c \<in> ms_processed st \<or>
     (\<exists>code. parseEpisodeCode (c_url c) = Some code \<and>
        fst (processEpisodeCard_try ev c code (ms_db st)) = None)"
  by (auto simp: processEpisodeCard_def split: option.splits prod.splits)

lemma processEpisodeCard_others:
  "k \<noteq> c_url c \<Longrightarrow> k \<in> ms_processed (processEpisodeCard ev c st) \<longleftrightarrow> k \<in> ms_processed st"
  by (auto simp: processEpisodeCard_def split: option.splits prod.splits)

lemma processCards_Cons:
  "processCards ev (c # cs) st = processCards ev cs (processEpisodeCard ev c st)"
  by (simp add: processCards_def)

subsection \<open>Idempotent persistence\<close>

lemma foldl_delete_latest_episodes [simp]:
  "episodes_tbl (foldl delete_latest d items) = episodes_tbl d"
  by (induction items arbitrary: d) (simp_all add: delete_latest_def)

lemma prune_client_episodes:
  "pruneLatestEpisodes_client N d = Inr d' \<Longrightarrow> episodes_tbl d' = episodes_tbl d"
  by (auto simp: pruneLatestEpisodes_client_def Let_def split: if_splits)

lemma upsert_latest_episodes [simp]: "episodes_tbl (upsert_latest row d) = episodes_tbl d"
  by (simp add: upsert_latest_def split: option.splits)

lemma addToLatest_client_episodes [simp]:
  "episodes_tbl (snd (addToLatestEpisodes_client t saved title N d)) = episodes_tbl d"
proof -
  let ?row = "\<lparr>lt_id = 0, lt_series_slug = ep_series_slug saved,
             lt_series_title = (if title \<noteq> [] then title else ep_title saved),
             lt_season = ep_season saved, lt_episode = ep_episode saved,
             lt_episode_title = ep_title saved,
             lt_thumbnail = js_or (ep_thumbnail saved) None, lt_added_at = t\<rparr>"
  show ?thesis
    using prune_client_episodes [of N "upsert_latest ?row d"]
    by (auto simp: addToLatestEpisodes_client_def Let_def split: sum.splits)
qed

lemma get_or_create_series_episodes [simp]:
  "episodes_tbl (fst (snd (get_or_create_series ev slug title url st))) = episodes_tbl (fst st)"
  by (auto simp: get_or_create_series_def upsertSeries_def Let_def
      split: sum.splits option.splits prod.splits)

lemma upsertEpisode_new:
  "find_episode (ep_key row) d = None \<Longrightarrow>
     episodes_tbl (snd (upsertEpisode row d)) = episodes_tbl d \<or>
     episodes_tbl (snd (upsertEpisode row d)) = episodes_tbl d @ [row]"
  by (auto simp: upsertEpisode_def upsert_by_def find_episode_def find_None_iff list_ex_iff)

lemma find_episode_grows:
  "find_episode k d = Some r \<Longrightarrow>
     episodes_tbl d' = episodes_tbl d \<or> episodes_tbl d' = episodes_tbl d @ [row] \<Longrightarrow>
     find_episode k d' = Some r"
  by (auto simp: find_episode_def find_snoc)

lemma scrapeEpisode_try_keeps_rows:
  assumes "find_episode k (fst st) = Some r"
  shows "find_episode k (fst (snd (scrapeEpisode_try ev url False st))) = Some r"
proof -
  have same: "find_episode k d' = Some r" if "episodes_tbl d' = episodes_tbl (fst st)" for d'
    using assms that by (simp add: find_episode_def)
  show ?thesis
  proof (cases "parseEpisodeCode url")
    case None
    then show ?thesis using assms by (simp add: scrapeEpisode_try_def)
  next
    case (Some epCode)
    obtain res pm1 log where f: "fetchHtmlWithRetry (e_site ev url) (e_agent_ok ev) url
                  (e_max_retries ev) (snd st) = (res, pm1, log)"
      by (cases "fetchHtmlWithRetry (e_site ev url) (e_agent_ok ev) url (e_max_retries ev) (snd st)")
    show ?thesis
    proof (cases res)
      case (Inl err)
      with Some f show ?thesis using assms by (simp add: scrapeEpisode_try_def)
    next
      case (Inr html)
      show ?thesis
      proof (cases "series_info ev (e_parse ev html) url")
        case None
        with Some f Inr show ?thesis using assms by (simp add: scrapeEpisode_try_def)
      next
        case si: (Some info)
        obtain seriesUrl seriesTitle where info: "info = (seriesUrl, seriesTitle)"
          by (cases info)
        let ?slug = "cleanSlug seriesTitle"
        obtain sres st2 where g: "get_or_create_series ev ?slug seriesTitle seriesUrl (fst st, pm1) = (sres, st2)"
          by (cases "get_or_create_series ev ?slug seriesTitle seriesUrl (fst st, pm1)")
        have e2: "episodes_tbl (fst st2) = episodes_tbl (fst st)"
          using get_or_create_series_episodes [of ev ?slug seriesTitle seriesUrl "(fst st, pm1)"] g
          by simp
        have k2: "find_episode k (fst st2) = Some r" using same [OF e2] .
        show ?thesis
        proof (cases sres)
          case (Inl err)
          with Some f Inr si info g k2 show ?thesis by (simp add: scrapeEpisode_try_def)
        next
          case sr: (Inr series)
          show ?thesis
          proof (cases "getEpisode (?slug, season epCode, episode epCode) (fst st2)")
            case (Inl err)
            with Some f Inr si info g sr k2 show ?thesis by (simp add: scrapeEpisode_try_def)
          next
            case ge: (Inr existing)
            show ?thesis
            proof (cases existing)
              case (Some ex)
              with \<open>parseEpisodeCode url = Some epCode\<close> f Inr si info g sr ge k2 show ?thesis
                by (simp add: scrapeEpisode_try_def)
            next
              case None
              let ?row = "\<lparr>ep_series_slug = ?slug, ep_season = season epCode,
                                        ep_episode = episode epCode,
                                        ep_title = or_text (cf_title (extractCommonFields (e_resolve ev) (e_parse ev html)))
                                          (''Episode '' @ show_nat (episode epCode)),
                                        ep_thumbnail = cf_thumbnail (extractCommonFields (e_resolve ev) (e_parse ev html)),
                                        ep_servers = extractIframeEmbeds (e_resolve ev) (e_parse ev html)\<rparr>"
              from ge None have absent: "find_episode (ep_key ?row) (fst st2) = None"
                by (auto simp: getEpisode_def ep_key_def split: if_splits)
              obtain ures d3 where u: "upsertEpisode ?row (fst st2) = (ures, d3)"
                by (cases "upsertEpisode ?row (fst st2)")
              have k3: "find_episode k d3 = Some r"
                using find_episode_grows [OF k2, of d3 ?row] upsertEpisode_new [OF absent] u by simp
              show ?thesis
              proof (cases ures)
                case (Inl err)
                with \<open>parseEpisodeCode url = Some epCode\<close> f Inr si info g sr ge None u k3
                show ?thesis
                  by (simp add: scrapeEpisode_try_def Let_def)
              next
                case sv: (Inr saved)
                obtain ares d4 where a: "addToLatestEpisodes_client (e_now ev) saved (sr_title series)
                                                (e_max_latest ev) d3 = (ares, d4)"
                  by (cases "addToLatestEpisodes_client (e_now ev) saved (sr_title series) (e_max_latest ev) d3")
                have "episodes_tbl d4 = episodes_tbl d3"
                  using addToLatest_client_episodes [of "e_now ev" saved "sr_title series" "e_max_latest ev" d3] a
                  by simp
                with k3 have k4: "find_episode k d4 = Some r" by (simp add: find_episode_def)
                with \<open>parseEpisodeCode url = Some epCode\<close> f Inr si info g sr ge None u sv a
                show ?thesis
                  by (cases ares) (simp_all add: scrapeEpisode_try_def Let_def)
              qed
            qed
          qed
        qed
      qed
    qed
  qed
qed

lemma service_card_keeps_rows:
  "find_episode k (fst (ss_store st)) = Some r \<Longrightarrow>
     find_episode k (fst (ss_store (service_card ev c st))) = Some r"
  using scrapeEpisode_try_keeps_rows [of k "ss_store st" r ev "c_url c"]
  by (auto simp: service_card_def scrapeEpisode_def split: option.splits prod.splits sum.splits)

lemma saveEpisode_keeps_rows:
  assumes "find_episode k d = Some r"
  shows "find_episode k (snd (saveEpisode y e d)) = Some r"
proof -
  obtain r1 d1 where s: "ensureSeriesExists y (me_series_slug e) (me_series_title e) d = (r1, d1)"
    by (cases "ensureSeriesExists y (me_series_slug e) (me_series_title e) d")
  have e1: "episodes_tbl d1 = episodes_tbl d"
    using ensureSeriesExists_episodes [of y "me_series_slug e" "me_series_title e" d] s by simp
  with assms have "find_episode k d1 = Some r"
    by (simp add: find_episode_def)
  with s show ?thesis
    by (auto simp: saveEpisode_def Let_def find_episode_def find_snoc split: option.splits)
qed

lemma processEpisodeCard_keeps_rows:
  assumes "find_episode k (ms_db st) = Some r"
  shows "find_episode k (ms_db (processEpisodeCard ev c st)) = Some r"
proof -
  have p: "find_episode k (snd (persist_episode ev e (ms_db st))) = Some r" for e
    using saveEpisode_keeps_rows [OF assms, of "e_year ev" e]
      find_episode_cong [OF persist_episode_episodes [of ev e "ms_db st"], of k]
    by simp
  show ?thesis
    using assms p
    by (auto simp: processEpisodeCard_def processEpisodeCard_try_def
        split: option.splits prod.splits sum.splits) (metis snd_conv)+
qed

text \<open>
  C1, as amended. Persisting the same episode twice leaves the store as persisting it once, in
  both programs. In \<^verbatim>\<open>scraper.js\<close> the write is \<^verbatim>\<open>upsertEpisode\<close>, an upsert on
  \<^verbatim>\<open>(series_slug, season, episode)\<close>: afterwards the stored record of the key is the one
  given. In \<^verbatim>\<open>monitor.js\<close> the write is \<^verbatim>\<open>saveEpisode\<close>, which first looks the key up: a record
  that exists is left as it is, and a record is inserted only when there is none. Processing a
  card a second time after the dedup cache was reset leaves the stored episodes as they were
  after the first, successful, processing; and in both card loops a record that is stored is
  never changed by processing a card again.
\<close>

theorem episode_persistence_idempotent:
  "snd (upsertEpisode row (snd (upsertEpisode row d))) = snd (upsertEpisode row d) \<and>
   (UpsertEpisode \<notin> down d \<longrightarrow>
      find_episode (ep_key row) (snd (upsertEpisode row d)) = Some row) \<and>
   snd (saveEpisode y e (snd (saveEpisode y e d))) = snd (saveEpisode y e d) \<and>
   (find_episode (me_key e) d \<noteq> None \<longrightarrow>
      episodes_tbl (snd (saveEpisode y e d)) = episodes_tbl d) \<and>
   (down d = {} \<and> find_episode (me_key e) d = None \<longrightarrow>
      find_episode (me_key e) (snd (saveEpisode y e d)) = Some (monitor_row e)) \<and>
   (c_url c \<notin> ms_processed st \<and> c_url c \<in> ms_processed (processEpisodeCard ev c st) \<longrightarrow>
      episodes_tbl (ms_db (processEpisodeCard ev c
          ((processEpisodeCard ev c st)\<lparr>ms_processed := {}\<rparr>)))
        = episodes_tbl (ms_db (processEpisodeCard ev c st))) \<and>
   (find_episode k (ms_db st) = Some r \<longrightarrow>
      find_episode k (ms_db (processEpisodeCard ev c st)) = Some r) \<and>
   (find_episode k (fst (ss_store sst)) = Some r \<longrightarrow>
      find_episode k (fst (ss_store (service_card ev c sst))) = Some r)"
  using upsertEpisode_idem [of row d] upsertEpisode_stores [of d row] saveEpisode_idem [of y e d]
    saveEpisode_keeps_existing [of e d y] saveEpisode_inserts [of d e y]
    processEpisodeCard_twice [of c st ev] processEpisodeCard_keeps_rows [of k st r ev c]
    service_card_keeps_rows [of k sst r ev c]
  by blast

theorem episode_persistence_idempotent_witness:
  "UpsertEpisode \<notin> down stale_db \<and>
   find_episode (ep_key old_row) (snd (upsertEpisode old_row stale_db)) = Some old_row \<and>
   find_episode (me_key fresh_episode) stale_db \<noteq> None \<and>
   episodes_tbl (snd (saveEpisode 2025 fresh_episode stale_db)) = episodes_tbl stale_db \<and>
   down empty_db = {} \<and> find_episode (me_key fresh_episode) empty_db = None \<and>
   find_episode (me_key fresh_episode) (snd (saveEpisode 2025 fresh_episode empty_db))
     = Some (monitor_row fresh_episode) \<and>
   c_url example_card \<notin> ms_processed \<lparr>ms_db = empty_db, ms_processed = {}\<rparr> \<and>
   c_url example_card \<in> ms_processed
     (processEpisodeCard example_env example_card \<lparr>ms_db = empty_db, ms_processed = {}\<rparr>) \<and>
   episodes_tbl (ms_db (processEpisodeCard example_env example_card
       ((processEpisodeCard example_env example_card
           \<lparr>ms_db = empty_db, ms_processed = {}\<rparr>)\<lparr>ms_processed := {}\<rparr>)))
     = episodes_tbl (ms_db (processEpisodeCard example_env example_card
           \<lparr>ms_db = empty_db, ms_processed = {}\<rparr>)) \<and>
   find_episode (''naruto'', 1, 1) (ms_db \<lparr>ms_db = stale_db, ms_processed = {}\<rparr>) = Some old_row \<and>
   find_episode (''naruto'', 1, 1)
     (ms_db (processEpisodeCard example_env example_card \<lparr>ms_db = stale_db, ms_processed = {}\<rparr>))
     = Some old_row \<and>
   find_episode (''naruto'', 1, 1) (fst (ss_store stale_service)) = Some old_row \<and>
   find_episode (''naruto'', 1, 1)
     (fst (ss_store (service_card example_env example_card stale_service))) = Some old_row"
proof -
  have 1: "UpsertEpisode \<notin> down stale_db" by code_simp
  have 2: "find_episode (me_key fresh_episode) stale_db \<noteq> None" by code_simp
  have 3: "down empty_db = {}" by (simp add: empty_db_def)
  have 4: "find_episode (me_key fresh_episode) empty_db = None" by code_simp
  have 5: "c_url example_card \<notin> ms_processed \<lparr>ms_db = empty_db, ms_processed = {}\<rparr>" by simp
  have 6: "c_url example_card \<in> ms_processed
     (processEpisodeCard example_env example_card \<lparr>ms_db = empty_db, ms_processed = {}\<rparr>)"
    by code_simp
  have 7: "find_episode (''naruto'', 1, 1) (ms_db \<lparr>ms_db = stale_db, ms_processed = {}\<rparr>) = Some old_row"
    by code_simp
  have 8: "find_episode (''naruto'', 1, 1) (fst (ss_store stale_service)) = Some old_row"
    by code_simp
  show ?thesis
    using episode_persistence_idempotent [of old_row stale_db 2025 fresh_episode example_card
        "\<lparr>ms_db = empty_db, ms_processed = {}\<rparr>" example_env "(''naruto'', 1, 1)" old_row
        stale_service]
      episode_persistence_idempotent [of old_row empty_db 2025 fresh_episode example_card
        "\<lparr>ms_db = stale_db, ms_processed = {}\<rparr>" example_env "(''naruto'', 1, 1)" old_row
        stale_service]
      1 2 3 4 5 6 7 8
    by blast
qed

text \<open>
  The claim as written makes every episode write an upsert that never checks for existence
  first. \<^verbatim>\<open>saveEpisode\<close> keeps the stored record of an episode that is scraped again with other
  data, where the upsert of the same data replaces it.
\<close>

theorem saveEpisode_keeps_stale_counterexample:
  "find_episode (me_key fresh_episode) (snd (saveEpisode 2025 fresh_episode stale_db)) = Some old_row \<and>
   ep_title old_row = ''Old title'' \<and>
   ep_title (monitor_row fresh_episode) = ''Naruto 1x1'' \<and>
   find_episode (me_key fresh_episode) (snd (upsertEpisode (monitor_row fresh_episode) stale_db))
     = Some (monitor_row fresh_episode)"
  by code_simp

subsection \<open>Homepage cards\<close>

lemma c_url_collectAnchorInfo [simp]: "c_url (collectAnchorInfo R href a) = href"
  by (simp add: collectAnchorInfo_def Let_def)

lemma extract_loop_urls:
  "set (map c_url (extract_loop R p seen as)) =
     {h. \<exists>a\<in>set as. normalizeUrl R (Some (a_href a)) = Some h \<and> h \<noteq> [] \<and>
           matches_content h \<and> starts_with p h} - set seen \<and>
   distinct (map c_url (extract_loop R p seen as))"
proof (induction as arbitrary: seen)
  case Nil
  then show ?case by simp
next
  case (Cons a as)
  note ih = Cons.IH
  show ?case
  proof (cases "normalizeUrl R (Some (a_href a))")
    case None
    with ih [of seen] show ?thesis by auto
  next
    case (Some href)
    show ?thesis
    proof (cases "href \<noteq> [] \<and> matches_content href \<and> starts_with p href")
      case False
      with Some ih [of seen] show ?thesis by auto
    next
      case keep: True
      show ?thesis
      proof (cases "href \<in> set seen")
        case True
        with Some keep ih [of seen] show ?thesis by auto
      next
        case False
        with Some keep ih [of "href # seen"] show ?thesis by auto
      qed
    qed
  qed
qed

lemma matches_episode_content: "matches_episode h \<Longrightarrow> matches_content h"
  by (simp add: matches_episode_def matches_content_def)

lemma homepage_episode_urls:
  "set (map c_url (filterRelevantHomepageEntries (extractHomepageEpisodeCards R as))) =
     {h. \<exists>a\<in>set as. normalizeUrl R (Some (a_href a)) = Some h \<and> h \<noteq> [] \<and>
           matches_episode h \<and> starts_with ''https://toonstream.love'' h} \<and>
   distinct (map c_url (filterRelevantHomepageEntries (extractHomepageEpisodeCards R as)))"
proof -
  let ?cs = "extractHomepageEpisodeCards R as"
  have m: "map c_url (filterRelevantHomepageEntries ?cs)
             = filter (\<lambda>h. h \<noteq> [] \<and> matches_episode h) (map c_url ?cs)"
    by (simp add: filterRelevantHomepageEntries_def filter_map comp_def)
  have u: "set (map c_url ?cs) =
     {h. \<exists>a\<in>set as. normalizeUrl R (Some (a_href a)) = Some h \<and> h \<noteq> [] \<and>
           matches_content h \<and> starts_with ''https://toonstream.love'' h}"
    and d: "distinct (map c_url ?cs)"
    using extract_loop_urls [of R "''https://toonstream.love''" "[]" as]
    by (simp_all add: extractHomepageEpisodeCards_def)
  have "set (filter (\<lambda>h. h \<noteq> [] \<and> matches_episode h) (map c_url ?cs)) =
     {h. \<exists>a\<in>set as. normalizeUrl R (Some (a_href a)) = Some h \<and> h \<noteq> [] \<and>
           matches_episode h \<and> starts_with ''https://toonstream.love'' h}"
    unfolding set_filter u using matches_episode_content by blast
  moreover have "distinct (filter (\<lambda>h. h \<noteq> [] \<and> matches_episode h) (map c_url ?cs))"
    using d by (rule distinct_filter)
  ultimately show ?thesis unfolding m by blast
qed

text \<open>
  C7. \<^verbatim>\<open>extractHomepageEpisodeCards\<close> keeps the first occurrence of every link whose
  normalized URL matches the content pattern and starts with \<^verbatim>\<open>https://toonstream.love\<close>
  (\<open>extract_loop_urls\<close>). That prefix has no trailing slash, so a link to another host whose
  name starts with the name of the site passes, and \<^verbatim>\<open>filterRelevantHomepageEntries\<close> returns it
  as an episode card although it is not same-origin with the homepage. The copy of the function
  in \<^verbatim>\<open>monitor-service.js\<close>, which compares with \<^verbatim>\<open>https://toonstream.love/\<close>, drops it.
\<close>

theorem extractHomepageEpisodeCards_foreign_origin:
  "map c_url (filterRelevantHomepageEntries
      (extractHomepageEpisodeCards site_resolve example_homepage)) =
     [''https://toonstream.love/episode/naruto-1x1/'',
      ''https://toonstream.love.evil.example/episode/naruto-1x2/''] \<and>
   \<not> same_origin ''https://toonstream.love.evil.example/episode/naruto-1x2/''
       ''https://toonstream.love/'' \<and>
   same_origin ''https://toonstream.love/episode/naruto-1x1/'' ''https://toonstream.love/'' \<and>
   map c_url (extractHomepageEpisodeCards_service ''https://toonstream.love/'' site_resolve
      example_homepage) = [''https://toonstream.love/episode/naruto-1x1/'']"
  by code_simp

subsection \<open>Failed cards and the dedup cache\<close>

text \<open>
  C9. In \<^verbatim>\<open>monitor.js\<close> the key of a card enters the dedup cache exactly when the whole
  \<^verbatim>\<open>try\<close> block succeeded (\<open>processEpisodeCard_marks\<close>), and the loop goes on to the next card
  whatever happened. In the service the key enters the cache although the episode upsert
  failed: \<^verbatim>\<open>scrapeEpisode\<close> catches the error and returns null, so the \<^verbatim>\<open>catch\<close> around its call
  never runs. Here the store refuses the upsert, nothing is stored, the key \<^verbatim>\<open>naruto_1_1\<close> is
  cached, and on the next cycle, with the store answering again, the card is skipped. The
  monitor of \<^verbatim>\<open>monitor.js\<close>, in the same situation, does not cache the key.
\<close>

theorem service_card_marks_failed_card:
  "fst (scrapeEpisode_try example_env (c_url example_card) False (ss_store gateway_down))
     = Inl (PersistenceFailure ''upsert episodes'') \<and>
   fst (scrapeEpisode example_env (c_url example_card) False (ss_store gateway_down)) = None \<and>
   createEpisodeKey (e_pathname example_env) (c_url example_card) = Some ''naruto_1_1'' \<and>
   ss_processed (service_card example_env example_card gateway_down) = {''naruto_1_1''} \<and>
   episodes_tbl (fst (ss_store (service_card example_env example_card gateway_down))) = [] \<and>
   service_cards example_env [example_card]
       (gateway_up (service_card example_env example_card gateway_down))
     = gateway_up (service_card example_env example_card gateway_down) \<and>
   ms_processed (processEpisodeCard example_env example_card insert_down) = {}"
  by code_simp

end
